theory Spec2Isabelle
  imports Complex_Main
begin

section \<open>JavaScript numbers\<close>

text \<open>
  Every size in the program is a JavaScript number obtained from a byte count by
  \<^verbatim>\<open>stats.size / (1024 * 1024)\<close>, and sums and differences of such numbers. They are
  multiples of \<open>1 / 2 ^ 20\<close>, on which double arithmetic is exact as long as the byte counts
  stay below \<open>2 ^ 53\<close>, so they are modelled as rationals. The only operation of the program
  that leaves the finite numbers is the division of the summary, whose result is a
  \<open>js_number\<close>: a finite quotient (its rounding to a double is not modelled), or one of
  the three special values of IEEE division by zero.
\<close>

datatype js_number = Finite rat | NaN | PosInfinity | NegInfinity

definition js_divide :: "rat \<Rightarrow> rat \<Rightarrow> js_number" where
  "js_divide x y =
     (if y \<noteq> 0 then Finite (x / y)
      else if x = 0 then NaN
      else if 0 < x then PosInfinity
      else NegInfinity)"

definition js_times :: "js_number \<Rightarrow> rat \<Rightarrow> js_number" where
  "js_times a c =
     (case a of
        Finite x \<Rightarrow> Finite (x * c)
      | NaN \<Rightarrow> NaN
      | PosInfinity \<Rightarrow> (if 0 < c then PosInfinity else if c < 0 then NegInfinity else NaN)
      | NegInfinity \<Rightarrow> (if 0 < c then NegInfinity else if c < 0 then PosInfinity else NaN))"

section \<open>File names\<close>

text \<open>
  \<^verbatim>\<open>String.prototype.toLowerCase\<close> and the \<^verbatim>\<open>i\<close> flag of a regular expression, on
  the letters that matter here: no character outside \<open>A\<close>..\<open>Z\<close> is mapped to an ASCII
  letter of \<open>jpg\<close>, \<open>jpeg\<close>, \<open>png\<close> or \<open>webp\<close>.
\<close>

definition to_lower_char :: "char \<Rightarrow> char" where
  "to_lower_char c =
     (case map_of (zip ''ABCDEFGHIJKLMNOPQRSTUVWXYZ'' ''abcdefghijklmnopqrstuvwxyz'') c of
        Some l \<Rightarrow> l
      | None \<Rightarrow> c)"

definition toLowerCase :: "string \<Rightarrow> string" where
  "toLowerCase s = map to_lower_char s"

definition endsWith :: "string \<Rightarrow> string \<Rightarrow> bool" where
  "endsWith s suf = (length suf \<le> length s \<and> drop (length s - length suf) s = suf)"

text \<open>The filter of discovery: \<^verbatim>\<open>/\.(jpg|jpeg|png|webp)$/i.test(file)\<close>.\<close>

definition image_extensions :: "string list" where
  "image_extensions = [''jpg'', ''jpeg'', ''png'', ''webp'']"

definition is_image_name :: "string \<Rightarrow> bool" where
  "is_image_name file =
     list_ex (\<lambda>ext. endsWith (toLowerCase file) (CHR ''.'' # ext)) image_extensions"

definition imageFiles :: "string list \<Rightarrow> string list" where
  "imageFiles files = filter is_image_name files"

text \<open>
  \<^verbatim>\<open>path.parse(file).name\<close> of Node.js, on a single path component (an entry name of a
  directory listing holds no separator). Node takes the extension to start at the last
  dot, unless the name has no dot, or its last dot is its first character, or the name
  is \<^verbatim>\<open>..\<close>; the name is what stands before the extension.
\<close>

definition path_parse_name :: "string \<Rightarrow> string" where
  "path_parse_name base =
     (if CHR ''.'' \<notin> set base then base
      else let stem = rev (tl (dropWhile (\<lambda>c. c \<noteq> CHR ''.'') (rev base)))
           in if stem = [] \<or> base = ''..'' then base else stem)"

section \<open>The environment: file system, codec and path library\<close>

datatype error =
    UnsupportedTargetExtension string
  | SystemError string
  | SharpError string

text \<open>The three encoders the program selects; \<open>Jpeg\<close> is \<^verbatim>\<open>jpeg({ quality, mozjpeg: true })\<close>.\<close>

datatype encoder = Jpeg | Webp | Png

datatype entry_kind = File | Directory

record dirent =
  d_name :: string
  d_kind :: entry_kind

text \<open>
  The operating system and the libraries are opaque: a run is relative to an environment
  over a type \<open>'w\<close> of worlds (the state of the file system). An operation that can
  throw or reject returns the error as a value.
  \<^item> \<open>os_readdir\<close>: the entries of a directory, in listing order;
  \<^item> \<open>os_ensureDir\<close>: \<^verbatim>\<open>fs.ensureDir\<close>, which may reject;
  \<^item> \<open>os_stat_size\<close>: \<^verbatim>\<open>fs.statSync(p).size\<close> in bytes, which throws on a missing path;
  \<^item> \<open>sharp_format\<close>: \<^verbatim>\<open>.jpeg(..)\<close>, \<^verbatim>\<open>.webp(..)\<close>, \<^verbatim>\<open>.png(..)\<close>, which throw on options
    they reject;
  \<^item> \<open>sharp_toFile\<close>: the encoder run, \<^verbatim>\<open>toFile(outputPath)\<close>, which may reject;
  \<^item> \<open>path_join\<close>: \<^verbatim>\<open>path.join\<close>.
\<close>

record 'w env =
  os_readdir :: "'w \<Rightarrow> string \<Rightarrow> error + dirent list"
  os_ensureDir :: "'w \<Rightarrow> string \<Rightarrow> error option \<times> 'w"
  os_stat_size :: "'w \<Rightarrow> string \<Rightarrow> error + nat"
  sharp_format :: "encoder \<Rightarrow> rat \<Rightarrow> error option"
  sharp_toFile :: "'w \<Rightarrow> encoder \<Rightarrow> rat \<Rightarrow> string \<Rightarrow> string \<Rightarrow> error option \<times> 'w"
  path_join :: "string \<Rightarrow> string \<Rightarrow> string"

text \<open>
  What a run does besides computing: console lines, spinner and progress bar updates, and
  the calls that write to the file system, in order. \<open>LogTimeTaken\<close> carries no value:
  the clock is not modelled. A size is carried as the number given to \<^verbatim>\<open>toFixed(2)\<close>.
\<close>

datatype event =
    LogNoImageFiles
  | EnsureDir string
  | SpinnerStart
  | ProgressStart nat nat
  | SpinnerText string
  | ToFile encoder rat string string
  | ErrorCompressing string error
  | LogFileInfo string rat rat rat
  | ProgressUpdate nat
  | ProgressStop
  | SpinnerSucceed
  | LogSummaryHeader
  | LogTotalImages nat
  | LogTotalOriginalSize rat
  | LogTotalSavedSize rat js_number
  | LogTimeTaken
  | ErrorProcessingDirectory error

section \<open>compressImage\<close>

record CompressionResult =
  originalSize :: rat
  compressedSize :: rat
  savedSize :: rat

definition getFileSizeInMB :: "'w env \<Rightarrow> 'w \<Rightarrow> string \<Rightarrow> error + rat" where
  "getFileSizeInMB env w filePath =
     (case os_stat_size env w filePath of
        Inl e \<Rightarrow> Inl e
      | Inr bytes \<Rightarrow> Inr (of_nat bytes / (1024 * 1024)))"

text \<open>Selecting one format on the sharp instance; the call throws on rejected options.\<close>

definition configure :: "'w env \<Rightarrow> encoder \<Rightarrow> rat \<Rightarrow> error + encoder" where
  "configure env enc quality =
     (case sharp_format env enc quality of Some e \<Rightarrow> Inl e | None \<Rightarrow> Inr enc)"

text \<open>The \<^verbatim>\<open>switch (targetExt.toLowerCase())\<close> of the second variant.\<close>

definition switch_targetExt :: "'w env \<Rightarrow> rat \<Rightarrow> string \<Rightarrow> error + encoder" where
  "switch_targetExt env quality targetExt =
     (let t = toLowerCase targetExt in
      if t = ''jpeg'' \<or> t = ''jpg'' then configure env Jpeg quality
      else if t = ''webp'' then configure env Webp quality
      else if t = ''png'' then configure env Png quality
      else Inl (UnsupportedTargetExtension targetExt))"

text \<open>
  The tail of the \<^verbatim>\<open>try\<close> block, the same in both variants: run the encoder, measure the
  output, build the result. Every error ends in the \<^verbatim>\<open>catch\<close>, which logs it with the
  input path and returns \<^verbatim>\<open>null\<close>.
\<close>

definition encode_and_measure ::
  "'w env \<Rightarrow> 'w \<Rightarrow> string \<Rightarrow> string \<Rightarrow> rat \<Rightarrow> rat \<Rightarrow> encoder
     \<Rightarrow> CompressionResult option \<times> 'w \<times> event list" where
  "encode_and_measure env w inputPath outputPath quality original enc =
     (case sharp_toFile env w enc quality inputPath outputPath of
        (Some e, w') \<Rightarrow>
          (None, w', [ToFile enc quality inputPath outputPath, ErrorCompressing inputPath e])
      | (None, w') \<Rightarrow>
          (case getFileSizeInMB env w' outputPath of
             Inl e \<Rightarrow>
               (None, w', [ToFile enc quality inputPath outputPath, ErrorCompressing inputPath e])
           | Inr compressed \<Rightarrow>
               (Some \<lparr>originalSize = original, compressedSize = compressed,
                      savedSize = original - compressed\<rparr>,
                w', [ToFile enc quality inputPath outputPath])))"

text \<open>
  The second variant (source lines 169 to 204). The default values of \<^verbatim>\<open>quality\<close> and
  \<^verbatim>\<open>targetExt\<close> apply to an undefined argument only; the one caller passes the values
  parsed from the command line, which have defaults of their own.
\<close>

definition compressImage ::
  "'w env \<Rightarrow> 'w \<Rightarrow> string \<Rightarrow> string \<Rightarrow> rat \<Rightarrow> string
     \<Rightarrow> CompressionResult option \<times> 'w \<times> event list" where
  "compressImage env w inputPath outputPath quality targetExt =
     (case getFileSizeInMB env w inputPath of
        Inl e \<Rightarrow> (None, w, [ErrorCompressing inputPath e])
      | Inr original \<Rightarrow>
          (case switch_targetExt env quality targetExt of
             Inl e \<Rightarrow> (None, w, [ErrorCompressing inputPath e])
           | Inr enc \<Rightarrow> encode_and_measure env w inputPath outputPath quality original enc))"

text \<open>The first variant (source lines 20 to 33): always the JPEG encoder.\<close>

definition compressImage_jpeg ::
  "'w env \<Rightarrow> 'w \<Rightarrow> string \<Rightarrow> string \<Rightarrow> rat \<Rightarrow> CompressionResult option \<times> 'w \<times> event list" where
  "compressImage_jpeg env w inputPath outputPath quality =
     (case getFileSizeInMB env w inputPath of
        Inl e \<Rightarrow> (None, w, [ErrorCompressing inputPath e])
      | Inr original \<Rightarrow>
          (case configure env Jpeg quality of
             Inl e \<Rightarrow> (None, w, [ErrorCompressing inputPath e])
           | Inr enc \<Rightarrow> encode_and_measure env w inputPath outputPath quality original enc))"

section \<open>compressImagesInDirectory\<close>

text \<open>\<^verbatim>\<open>fs.readdir\<close> returns the names of the entries only.\<close>

definition fs_readdir :: "'w env \<Rightarrow> 'w \<Rightarrow> string \<Rightarrow> error + string list" where
  "fs_readdir env w dir =
     (case os_readdir env w dir of Inl e \<Rightarrow> Inl e | Inr ents \<Rightarrow> Inr (map d_name ents))"

record 'w loop_state =
  world :: 'w
  trace :: "event list"
  totalSavedSize :: rat
  totalOriginalSize :: rat
  bar_value :: nat

text \<open>
  One turn of the \<^verbatim>\<open>for\<close> loop after the two paths are computed, the same text in both
  variants: set the spinner text, await the compression \<open>compress\<close>, add a result to the
  totals and print its line, update the progress bar to \<open>index + 1\<close>.
\<close>

definition iteration ::
  "('w \<Rightarrow> CompressionResult option \<times> 'w \<times> event list)
     \<Rightarrow> 'w loop_state \<Rightarrow> nat \<Rightarrow> string \<Rightarrow> 'w loop_state" where
  "iteration compress s index file =
     (case compress (world s) of
        (result, w', evs) \<Rightarrow>
          let s1 = s\<lparr>world := w', trace := trace s @ [SpinnerText file] @ evs\<rparr>;
              s2 = (case result of
                      Some r \<Rightarrow>
                        s1\<lparr>totalOriginalSize := totalOriginalSize s1 + originalSize r,
                           totalSavedSize := totalSavedSize s1 + savedSize r,
                           trace := trace s1 @
                             [LogFileInfo file (originalSize r) (compressedSize r) (savedSize r)]\<rparr>
                    | None \<Rightarrow> s1)
          in s2\<lparr>bar_value := index + 1, trace := trace s2 @ [ProgressUpdate (index + 1)]\<rparr>)"

text \<open>
  The two paths of a file and the awaited call, in the second variant (source lines 248
  to 261) and in the first (lines 72 to 77), which writes under the unchanged file name.
\<close>

definition outputPath :: "'w env \<Rightarrow> string \<Rightarrow> string \<Rightarrow> string \<Rightarrow> string" where
  "outputPath env exportDir file targetExt =
     path_join env exportDir (path_parse_name file @ ''.'' @ targetExt)"

definition outputPath_jpeg :: "'w env \<Rightarrow> string \<Rightarrow> string \<Rightarrow> string" where
  "outputPath_jpeg env exportDir file = path_join env exportDir file"

definition compress_file ::
  "'w env \<Rightarrow> string \<Rightarrow> string \<Rightarrow> rat \<Rightarrow> string \<Rightarrow> string \<Rightarrow> 'w
     \<Rightarrow> CompressionResult option \<times> 'w \<times> event list" where
  "compress_file env sourceDir exportDir quality targetExt file w =
     (let inputPath = path_join env sourceDir file;
          outPath = outputPath env exportDir file targetExt
      in compressImage env w inputPath outPath quality targetExt)"

definition compress_file_jpeg ::
  "'w env \<Rightarrow> string \<Rightarrow> string \<Rightarrow> rat \<Rightarrow> string \<Rightarrow> 'w
     \<Rightarrow> CompressionResult option \<times> 'w \<times> event list" where
  "compress_file_jpeg env sourceDir exportDir quality file w =
     (let inputPath = path_join env sourceDir file;
          outPath = outputPath_jpeg env exportDir file
      in compressImage_jpeg env w inputPath outPath quality)"

text \<open>
  The loop \<^verbatim>\<open>for (const [index, file] of imageFiles.entries())\<close>: strictly sequential,
  each turn starting in the state the turn before left.
\<close>

fun for_entries ::
  "(string \<Rightarrow> 'w \<Rightarrow> CompressionResult option \<times> 'w \<times> event list)
     \<Rightarrow> 'w loop_state \<Rightarrow> (nat \<times> string) list \<Rightarrow> 'w loop_state" where
  "for_entries compress s [] = s"
| "for_entries compress s ((index, file) # rest) =
     for_entries compress (iteration (compress file) s index file) rest"

definition process_files ::
  "'w env \<Rightarrow> string \<Rightarrow> string \<Rightarrow> rat \<Rightarrow> string \<Rightarrow> 'w loop_state \<Rightarrow> string list
     \<Rightarrow> 'w loop_state" where
  "process_files env sourceDir exportDir quality targetExt s files =
     for_entries (compress_file env sourceDir exportDir quality targetExt) s (enumerate 0 files)"

definition process_files_jpeg ::
  "'w env \<Rightarrow> string \<Rightarrow> string \<Rightarrow> rat \<Rightarrow> 'w loop_state \<Rightarrow> string list \<Rightarrow> 'w loop_state" where
  "process_files_jpeg env sourceDir exportDir quality s files =
     for_entries (compress_file_jpeg env sourceDir exportDir quality) s (enumerate 0 files)"

text \<open>The state in which the loop starts, after the export directory is ensured.\<close>

definition initial_state :: "'w \<Rightarrow> string \<Rightarrow> nat \<Rightarrow> 'w loop_state" where
  "initial_state w exportDir n =
     \<lparr>world = w, trace = [EnsureDir exportDir, SpinnerStart, ProgressStart n 0],
      totalSavedSize = 0, totalOriginalSize = 0, bar_value = 0\<rparr>"

definition totalSpaceSavedPercentage :: "rat \<Rightarrow> rat \<Rightarrow> js_number" where
  "totalSpaceSavedPercentage totalSaved totalOriginal =
     js_times (js_divide totalSaved totalOriginal) 100"

definition summary :: "nat \<Rightarrow> rat \<Rightarrow> rat \<Rightarrow> event list" where
  "summary n totalOriginal totalSaved =
     [LogSummaryHeader, LogTotalImages n, LogTotalOriginalSize totalOriginal,
      LogTotalSavedSize totalSaved (totalSpaceSavedPercentage totalSaved totalOriginal),
      LogTimeTaken]"

definition finish :: "'w loop_state \<Rightarrow> nat \<Rightarrow> 'w \<times> event list" where
  "finish s n =
     (world s,
      trace s @ [ProgressStop, SpinnerSucceed]
        @ summary n (totalOriginalSize s) (totalSavedSize s))"

text \<open>The second variant (source lines 207 to 304): final world and trace of a run.\<close>

definition compressImagesInDirectory ::
  "'w env \<Rightarrow> 'w \<Rightarrow> string \<Rightarrow> string \<Rightarrow> rat \<Rightarrow> string \<Rightarrow> 'w \<times> event list" where
  "compressImagesInDirectory env w sourceDir exportDir quality targetExt =
     (case fs_readdir env w sourceDir of
        Inl e \<Rightarrow> (w, [ErrorProcessingDirectory e])
      | Inr files \<Rightarrow>
          if length (imageFiles files) = 0 then (w, [LogNoImageFiles])
          else
            (case os_ensureDir env w exportDir of
               (Some e, w1) \<Rightarrow> (w1, [EnsureDir exportDir, ErrorProcessingDirectory e])
             | (None, w1) \<Rightarrow>
                 finish
                   (process_files env sourceDir exportDir quality targetExt
                      (initial_state w1 exportDir (length (imageFiles files)))
                      (imageFiles files))
                   (length (imageFiles files))))"

text \<open>The first variant (source lines 36 to 120).\<close>

definition compressImagesInDirectory_jpeg ::
  "'w env \<Rightarrow> 'w \<Rightarrow> string \<Rightarrow> string \<Rightarrow> rat \<Rightarrow> 'w \<times> event list" where
  "compressImagesInDirectory_jpeg env w sourceDir exportDir quality =
     (case fs_readdir env w sourceDir of
        Inl e \<Rightarrow> (w, [ErrorProcessingDirectory e])
      | Inr files \<Rightarrow>
          if length (imageFiles files) = 0 then (w, [LogNoImageFiles])
          else
            (case os_ensureDir env w exportDir of
               (Some e, w1) \<Rightarrow> (w1, [EnsureDir exportDir, ErrorProcessingDirectory e])
             | (None, w1) \<Rightarrow>
                 finish
                   (process_files_jpeg env sourceDir exportDir quality
                      (initial_state w1 exportDir (length (imageFiles files)))
                      (imageFiles files))
                   (length (imageFiles files))))"

section \<open>Reading a run\<close>

text \<open>
  Functions that read a trace or a loop, used to state the properties: the values given
  to the progress bar, the files the spinner announced, the paths of the logged
  compression errors, the encoder runs, and the results the awaited compressions return
  one after the other.
\<close>

fun progress_of :: "event \<Rightarrow> nat list" where
  "progress_of (ProgressUpdate n) = [n]"
| "progress_of _ = []"

definition progress_updates :: "event list \<Rightarrow> nat list" where
  "progress_updates tr = concat (map progress_of tr)"

fun announced_of :: "event \<Rightarrow> string list" where
  "announced_of (SpinnerText file) = [file]"
| "announced_of _ = []"

definition attempted :: "event list \<Rightarrow> string list" where
  "attempted tr = concat (map announced_of tr)"

fun error_path_of :: "event \<Rightarrow> string list" where
  "error_path_of (ErrorCompressing p e) = [p]"
| "error_path_of _ = []"

definition error_paths :: "event list \<Rightarrow> string list" where
  "error_paths tr = concat (map error_path_of tr)"

fun is_ToFile :: "event \<Rightarrow> bool" where
  "is_ToFile (ToFile enc q inp out) = True"
| "is_ToFile _ = False"

definition encoder_runs :: "event list \<Rightarrow> event list" where
  "encoder_runs tr = filter is_ToFile tr"

fun results_of ::
  "(string \<Rightarrow> 'w \<Rightarrow> CompressionResult option \<times> 'w \<times> event list)
     \<Rightarrow> 'w \<Rightarrow> string list \<Rightarrow> CompressionResult option list" where
  "results_of compress w [] = []"
| "results_of compress w (file # files) =
     (case compress file w of (result, w', evs) \<Rightarrow> result # results_of compress w' files)"

text \<open>The state in which the turn of the file of index \<open>k\<close> starts.\<close>

definition state_before ::
  "'w env \<Rightarrow> string \<Rightarrow> string \<Rightarrow> rat \<Rightarrow> string \<Rightarrow> 'w loop_state \<Rightarrow> string list \<Rightarrow> nat
     \<Rightarrow> 'w loop_state" where
  "state_before env sourceDir exportDir quality targetExt s files k =
     process_files env sourceDir exportDir quality targetExt s (take k files)"

fun successful :: "'a option list \<Rightarrow> 'a list" where
  "successful [] = []"
| "successful (None # rs) = successful rs"
| "successful (Some r # rs) = r # successful rs"

section \<open>An example environment\<close>

text \<open>
  A small concrete environment on which the theorems below are instantiated. The world
  lists the byte count of each path. The example codec rejects an input that is missing
  or shorter than 8192 bytes, halves a file as JPEG or WebP and doubles it as PNG; the
  export directory \<^verbatim>\<open>/readonly/out\<close> cannot be created.
\<close>

definition example_listing :: "string \<Rightarrow> error + dirent list" where
  "example_listing dir =
     (if dir = ''photos'' then
        Inr [\<lparr>d_name = ''a.jpg'', d_kind = File\<rparr>, \<lparr>d_name = ''notes.txt'', d_kind = File\<rparr>,
             \<lparr>d_name = ''b.PNG'', d_kind = File\<rparr>]
      else if dir = ''docs'' then
        Inr [\<lparr>d_name = ''readme.md'', d_kind = File\<rparr>, \<lparr>d_name = ''sub'', d_kind = Directory\<rparr>]
      else if dir = ''mixed'' then
        Inr [\<lparr>d_name = ''album.png'', d_kind = Directory\<rparr>, \<lparr>d_name = ''.jpg'', d_kind = File\<rparr>]
      else if dir = ''broken'' then Inr [\<lparr>d_name = ''c.webp'', d_kind = File\<rparr>]
      else Inl (SystemError ''ENOENT''))"

definition example_world :: "(string \<times> nat) list" where
  "example_world =
     [(''photos/a.jpg'', 2097152), (''photos/notes.txt'', 12), (''photos/b.PNG'', 1048576),
      (''docs/readme.md'', 300), (''docs/sub'', 4096),
      (''mixed/album.png'', 4096), (''mixed/.jpg'', 524288), (''broken/c.webp'', 100)]"

definition example_env :: "(string \<times> nat) list env" where
  "example_env =
     \<lparr>os_readdir = (\<lambda>w dir. example_listing dir),
      os_ensureDir = (\<lambda>w dir.
        if dir = ''/readonly/out'' then (Some (SystemError ''EACCES''), w) else (None, w)),
      os_stat_size = (\<lambda>w p.
        case map_of w p of None \<Rightarrow> Inl (SystemError ''ENOENT'') | Some n \<Rightarrow> Inr n),
      sharp_format = (\<lambda>enc q.
        if 1 \<le> q \<and> q \<le> 100 then None else Some (SharpError ''quality'')),
      sharp_toFile = (\<lambda>w enc q inp out.
        case map_of w inp of
          None \<Rightarrow> (Some (SharpError ''missing''), w)
        | Some n \<Rightarrow>
            if n < 8192 then (Some (SharpError ''unsupported image format''), w)
            else (None, (out, if enc = Png then 2 * n else n div 2) # w)),
      path_join = (\<lambda>a b. a @ ''/'' @ b)\<rparr>"

section \<open>Results and failures of compressImage\<close>

lemma encode_and_measure_Some:
  assumes "encode_and_measure env w inp out q orig enc = (Some r, w', evs)"
  shows "\<exists>m. sharp_toFile env w enc q inp out = (None, w') \<and> os_stat_size env w' out = Inr m
           \<and> r = \<lparr>originalSize = orig, compressedSize = of_nat m / (1024 * 1024),
                   savedSize = orig - of_nat m / (1024 * 1024)\<rparr>
           \<and> evs = [ToFile enc q inp out]"
  using assms
  by (auto simp: encode_and_measure_def getFileSizeInMB_def
      split: prod.splits option.splits sum.splits)

lemma encode_and_measure_None:
  assumes "encode_and_measure env w inp out q orig enc = (None, w', evs)"
  shows "\<exists>e. evs = [ToFile enc q inp out, ErrorCompressing inp e]
           \<and> snd (sharp_toFile env w enc q inp out) = w'"
  using assms
  by (auto simp: encode_and_measure_def getFileSizeInMB_def
      split: prod.splits option.splits sum.splits)

lemma compressImage_Some:
  assumes "compressImage env w inp out q t = (Some r, w', evs)"
  shows "\<exists>n m enc. os_stat_size env w inp = Inr n \<and> switch_targetExt env q t = Inr enc
           \<and> sharp_toFile env w enc q inp out = (None, w') \<and> os_stat_size env w' out = Inr m
           \<and> r = \<lparr>originalSize = of_nat n / (1024 * 1024),
                   compressedSize = of_nat m / (1024 * 1024),
                   savedSize = of_nat n / (1024 * 1024) - of_nat m / (1024 * 1024)\<rparr>
           \<and> evs = [ToFile enc q inp out]"
  using assms
  by (auto simp: compressImage_def getFileSizeInMB_def
      split: sum.splits dest!: encode_and_measure_Some)

lemma compressImage_jpeg_Some:
  assumes "compressImage_jpeg env w inp out q = (Some r, w', evs)"
  shows "\<exists>n m. os_stat_size env w inp = Inr n \<and> sharp_format env Jpeg q = None
           \<and> sharp_toFile env w Jpeg q inp out = (None, w') \<and> os_stat_size env w' out = Inr m
           \<and> r = \<lparr>originalSize = of_nat n / (1024 * 1024),
                   compressedSize = of_nat m / (1024 * 1024),
                   savedSize = of_nat n / (1024 * 1024) - of_nat m / (1024 * 1024)\<rparr>
           \<and> evs = [ToFile Jpeg q inp out]"
  using assms
  by (auto simp: compressImage_jpeg_def getFileSizeInMB_def configure_def
      split: sum.splits option.splits dest!: encode_and_measure_Some)

lemma compressImage_None:
  assumes "compressImage env w inp out q t = (None, w', evs)"
  shows "\<exists>e. evs = [ErrorCompressing inp e] \<and> w' = w
           \<or> (\<exists>enc. evs = [ToFile enc q inp out, ErrorCompressing inp e])"
  using assms
  by (auto simp: compressImage_def split: sum.splits dest!: encode_and_measure_None)

lemma compressImage_jpeg_None:
  assumes "compressImage_jpeg env w inp out q = (None, w', evs)"
  shows "\<exists>e. evs = [ErrorCompressing inp e] \<and> w' = w
           \<or> evs = [ToFile Jpeg q inp out, ErrorCompressing inp e]"
  using assms
  by (auto simp: compressImage_jpeg_def configure_def
      split: sum.splits option.splits dest!: encode_and_measure_None)

lemma compressImage_jpeg_eq: "compressImage_jpeg env w inp out q = compressImage env w inp out q ''jpg''"
proof -
  have "switch_targetExt env q ''jpg'' = configure env Jpeg q"
    by (simp add: switch_targetExt_def toLowerCase_def to_lower_char_def)
  then show ?thesis
    by (simp add: compressImage_jpeg_def compressImage_def split: sum.splits)
qed

section \<open>One turn of the loop\<close>

lemma iteration_None:
  assumes "compress (world s) = (None, w', evs)"
  shows "iteration compress s index file =
           s\<lparr>world := w', trace := trace s @ [SpinnerText file] @ evs @ [ProgressUpdate (Suc index)],
             bar_value := Suc index\<rparr>"
  using assms by (simp add: iteration_def)

lemma iteration_Some:
  assumes "compress (world s) = (Some r, w', evs)"
  shows "iteration compress s index file =
           s\<lparr>world := w',
             trace := trace s @ [SpinnerText file] @ evs
               @ [LogFileInfo file (originalSize r) (compressedSize r) (savedSize r),
                  ProgressUpdate (Suc index)],
             totalOriginalSize := totalOriginalSize s + originalSize r,
             totalSavedSize := totalSavedSize s + savedSize r,
             bar_value := Suc index\<rparr>"
  using assms by (simp add: iteration_def)

section \<open>Image names and the name part of a path\<close>

lemma to_lower_char_dot: "to_lower_char c = CHR ''.'' \<longleftrightarrow> c = CHR ''.''"
  by (auto simp: to_lower_char_def split: if_splits)

lemma toLowerCase_append: "toLowerCase (a @ b) = toLowerCase a @ toLowerCase b"
  by (simp add: toLowerCase_def)

lemma endsWith_iff: "endsWith s suf \<longleftrightarrow> (\<exists>pre. s = pre @ suf)"
proof
  assume "endsWith s suf"
  then have "s = take (length s - length suf) s @ suf"
    by (metis append_take_drop_id endsWith_def)
  then show "\<exists>pre. s = pre @ suf" ..
next
  assume "\<exists>pre. s = pre @ suf"
  then show "endsWith s suf" by (auto simp: endsWith_def)
qed

lemma no_dot_in_extension:
  assumes "toLowerCase ext \<in> set image_extensions"
  shows "CHR ''.'' \<notin> set ext" and "ext \<noteq> []"
proof -
  have "CHR ''.'' \<notin> set (toLowerCase ext)"
    using assms by (auto simp: image_extensions_def)
  moreover have "to_lower_char CHR ''.'' = CHR ''.''"
    by (simp add: to_lower_char_dot)
  ultimately show "CHR ''.'' \<notin> set ext"
    by (force simp: toLowerCase_def)
  show "ext \<noteq> []"
    using assms by (auto simp: image_extensions_def toLowerCase_def)
qed

lemma is_image_name_iff:
  "is_image_name f \<longleftrightarrow>
     (\<exists>stem ext. f = stem @ ''.'' @ ext \<and> toLowerCase ext \<in> set image_extensions)"
proof
  assume "is_image_name f"
  then obtain e pre where e: "e \<in> set image_extensions"
    and eq: "toLowerCase f = pre @ CHR ''.'' # e"
    by (auto simp: is_image_name_def list_ex_iff endsWith_iff)
  define stem where "stem = take (length pre) f"
  define rest where "rest = drop (length pre) f"
  have f: "f = stem @ rest" by (simp add: stem_def rest_def)
  have "length (toLowerCase f) = length pre + Suc (length e)" using eq by simp
  then have len: "length stem = length pre"
    by (simp add: stem_def toLowerCase_def)
  have "toLowerCase stem @ toLowerCase rest = pre @ CHR ''.'' # e"
    using eq f by (simp add: toLowerCase_append)
  then have r: "toLowerCase rest = CHR ''.'' # e"
    using len by (simp add: toLowerCase_def)
  then obtain c ext where rest: "rest = c # ext" and c: "to_lower_char c = CHR ''.''"
    and ext: "toLowerCase ext = e"
    by (cases rest) (auto simp: toLowerCase_def)
  from c have "c = CHR ''.''" by (simp add: to_lower_char_dot)
  with f rest ext e show "\<exists>stem ext. f = stem @ ''.'' @ ext \<and> toLowerCase ext \<in> set image_extensions"
    by auto
next
  assume "\<exists>stem ext. f = stem @ ''.'' @ ext \<and> toLowerCase ext \<in> set image_extensions"
  then obtain stem ext where f: "f = stem @ ''.'' @ ext"
    and e: "toLowerCase ext \<in> set image_extensions" by blast
  have "toLowerCase f = toLowerCase stem @ CHR ''.'' # toLowerCase ext"
    using f by (simp add: toLowerCase_def to_lower_char_def)
  then have "endsWith (toLowerCase f) (CHR ''.'' # toLowerCase ext)"
    by (auto simp: endsWith_iff)
  with e show "is_image_name f"
    by (auto simp: is_image_name_def list_ex_iff)
qed

lemma path_parse_name_split:
  assumes "CHR ''.'' \<notin> set ext" and "ext \<noteq> []"
  shows "path_parse_name (stem @ ''.'' @ ext) = (if stem = [] then ''.'' @ ext else stem)"
proof -
  have "dropWhile (\<lambda>c. c \<noteq> CHR ''.'') (rev ext @ CHR ''.'' # rev stem) = CHR ''.'' # rev stem"
    using assms(1) by (subst dropWhile_append2) auto
  moreover have "stem @ ''.'' @ ext \<noteq> ''..''"
    using assms by (cases ext; cases stem) auto
  ultimately show ?thesis
    by (simp add: path_parse_name_def)
qed

section \<open>The loop as a whole\<close>

lemma for_entries_append:
  "for_entries c s (xs @ ys) = for_entries c (for_entries c s xs) ys"
proof (induction xs arbitrary: s)
  case Nil
  show ?case by simp
next
  case (Cons x xs)
  then show ?case by (cases x) simp
qed

lemma for_entries_take_Suc:
  assumes "k < length fs"
  shows "for_entries c s (enumerate n (take (Suc k) fs)) =
           iteration (c (fs ! k)) (for_entries c s (enumerate n (take k fs))) (n + k) (fs ! k)"
proof -
  have "take (Suc k) fs = take k fs @ [fs ! k]"
    using assms by (simp add: take_Suc_conv_app_nth)
  then have "enumerate n (take (Suc k) fs) = enumerate n (take k fs) @ [(n + k, fs ! k)]"
    using assms by (simp add: enumerate_append_eq)
  then show ?thesis by (simp add: for_entries_append)
qed

lemma world_iteration: "world (iteration c s i f) = fst (snd (c (world s)))"
  by (simp add: iteration_def Let_def split: prod.splits option.splits)

lemma bar_value_iteration: "bar_value (iteration c s i f) = Suc i"
  by (simp add: iteration_def Let_def split: prod.splits option.splits)

lemma bar_value_for_entries:
  "fs \<noteq> [] \<Longrightarrow> bar_value (for_entries c s (enumerate n fs)) = n + length fs"
proof (induction fs arbitrary: n s)
  case Nil
  then show ?case by simp
next
  case (Cons f fs)
  show ?case
  proof (cases fs)
    case Nil
    then show ?thesis by (simp add: bar_value_iteration)
  next
    case (Cons g gs)
    then have "fs \<noteq> []" by simp
    from Cons.IH [OF this] show ?thesis by simp
  qed
qed

section \<open>What the turns add to the trace and to the totals\<close>

lemma compressImage_quiet:
  assumes "compressImage env w inp out q t = (r, w', evs)"
  shows "progress_updates evs = [] \<and> attempted evs = []"
proof (cases r)
  case None
  with assms compressImage_None [of env w inp out q t w' evs] show ?thesis
    by (auto simp: progress_updates_def attempted_def)
next
  case (Some x)
  with assms compressImage_Some [of env w inp out q t x w' evs] show ?thesis
    by (auto simp: progress_updates_def attempted_def)
qed

lemma compress_file_quiet:
  "progress_updates (snd (snd (compress_file env src dst q t f w))) = []"
  "attempted (snd (snd (compress_file env src dst q t f w))) = []"
  using compressImage_quiet [of env w "path_join env src f" "outputPath env dst f t" q t]
  by (cases "compress_file env src dst q t f w"; simp add: compress_file_def)+

lemma compress_file_jpeg_quiet:
  "progress_updates (snd (snd (compress_file_jpeg env src dst q f w))) = []"
  "attempted (snd (snd (compress_file_jpeg env src dst q f w))) = []"
  using compressImage_quiet [of env w "path_join env src f" "outputPath_jpeg env dst f" q "''jpg''"]
  by (cases "compress_file_jpeg env src dst q f w"; simp add: compress_file_jpeg_def compressImage_jpeg_eq)+

lemma trace_iteration:
  "\<exists>evs. trace (iteration c s i f) =
     trace s @ [SpinnerText f] @ snd (snd (c (world s))) @ evs @ [ProgressUpdate (Suc i)]
     \<and> progress_updates evs = [] \<and> attempted evs = []"
proof (cases "c (world s)")
  case (fields r w' evs)
  show ?thesis
  proof (cases r)
    case None
    with fields show ?thesis
      by (simp add: iteration_None progress_updates_def attempted_def)
  next
    case (Some x)
    with fields have "trace (iteration c s i f) =
        trace s @ [SpinnerText f] @ snd (snd (c (world s)))
          @ [LogFileInfo f (originalSize x) (compressedSize x) (savedSize x)]
          @ [ProgressUpdate (Suc i)]"
      by (simp add: iteration_Some)
    moreover have "progress_updates [LogFileInfo f (originalSize x) (compressedSize x) (savedSize x)] = []
        \<and> attempted [LogFileInfo f (originalSize x) (compressedSize x) (savedSize x)] = []"
      by (simp add: progress_updates_def attempted_def)
    ultimately show ?thesis by blast
  qed
qed

lemma progress_updates_append: "progress_updates (a @ b) = progress_updates a @ progress_updates b"
  by (simp add: progress_updates_def)

lemma attempted_append: "attempted (a @ b) = attempted a @ attempted b"
  by (simp add: attempted_def)

lemma progress_updates_iteration:
  assumes "progress_updates (snd (snd (c (world s)))) = []"
  shows "progress_updates (trace (iteration c s i f)) = progress_updates (trace s) @ [Suc i]"
proof -
  obtain evs where "trace (iteration c s i f) =
     trace s @ [SpinnerText f] @ snd (snd (c (world s))) @ evs @ [ProgressUpdate (Suc i)]"
    and "progress_updates evs = []"
    using trace_iteration [of c s i f] by blast
  with assms show ?thesis
    by (simp add: progress_updates_append) (simp add: progress_updates_def)
qed

lemma attempted_iteration:
  assumes "attempted (snd (snd (c (world s)))) = []"
  shows "attempted (trace (iteration c s i f)) = attempted (trace s) @ [f]"
proof -
  obtain evs where "trace (iteration c s i f) =
     trace s @ [SpinnerText f] @ snd (snd (c (world s))) @ evs @ [ProgressUpdate (Suc i)]"
    and "attempted evs = []"
    using trace_iteration [of c s i f] by blast
  with assms show ?thesis
    by (simp add: attempted_append) (simp add: attempted_def)
qed

lemma progress_updates_for_entries:
  assumes "\<And>f w. progress_updates (snd (snd (c f w))) = []"
  shows "progress_updates (trace (for_entries c s (enumerate n fs))) =
           progress_updates (trace s) @ [Suc n ..< Suc n + length fs]"
proof (induction fs arbitrary: n s)
  case Nil
  show ?case by simp
next
  case (Cons f fs)
  have "[Suc n ..< Suc n + length (f # fs)] = Suc n # [Suc (Suc n) ..< Suc (Suc n) + length fs]"
    by (simp add: upt_rec)
  then show ?case
    using Cons.IH [where n = "Suc n" and s = "iteration (c f) s n f"] assms
    by (simp add: progress_updates_iteration)
qed

lemma attempted_for_entries:
  assumes "\<And>f w. attempted (snd (snd (c f w))) = []"
  shows "attempted (trace (for_entries c s (enumerate n fs))) = attempted (trace s) @ fs"
proof (induction fs arbitrary: n s)
  case Nil
  show ?case by simp
next
  case (Cons f fs)
  then show ?case
    using assms by (simp add: attempted_iteration)
qed

lemma totals_iteration:
  "totalOriginalSize (iteration c s i f) =
     totalOriginalSize s + sum_list (map originalSize (successful [fst (c (world s))]))"
  "totalSavedSize (iteration c s i f) =
     totalSavedSize s + sum_list (map savedSize (successful [fst (c (world s))]))"
proof -
  obtain r w' evs where c: "c (world s) = (r, w', evs)" by (cases "c (world s)")
  show "totalOriginalSize (iteration c s i f) =
     totalOriginalSize s + sum_list (map originalSize (successful [fst (c (world s))]))"
    using c by (cases r) (simp_all add: iteration_None iteration_Some)
  show "totalSavedSize (iteration c s i f) =
     totalSavedSize s + sum_list (map savedSize (successful [fst (c (world s))]))"
    using c by (cases r) (simp_all add: iteration_None iteration_Some)
qed

lemma totals_step:
  assumes "c f (world s) = (r, w', evs)"
  shows "world (iteration (c f) s n f) = w'"
    and "results_of c (world s) (f # fs) = r # results_of c w' fs"
    and "totalOriginalSize (iteration (c f) s n f) =
           totalOriginalSize s + sum_list (map originalSize (successful [r]))"
    and "totalSavedSize (iteration (c f) s n f) =
           totalSavedSize s + sum_list (map savedSize (successful [r]))"
  using assms by (simp_all add: world_iteration totals_iteration)

lemma totalOriginalSize_for_entries:
  "totalOriginalSize (for_entries c s (enumerate n fs)) =
     totalOriginalSize s + sum_list (map originalSize (successful (results_of c (world s) fs)))"
proof (induction fs arbitrary: n s)
  case Nil
  show ?case by simp
next
  case (Cons f fs)
  obtain r w' evs where c: "c f (world s) = (r, w', evs)" by (cases "c f (world s)")
  note step = totals_step [of c f s r w' evs, OF c]
  have "totalOriginalSize (for_entries c s (enumerate n (f # fs))) =
      totalOriginalSize (iteration (c f) s n f)
        + sum_list (map originalSize (successful (results_of c w' fs)))"
    using Cons.IH [where n = "Suc n" and s = "iteration (c f) s n f"] step(1) by simp
  also have "\<dots> = totalOriginalSize s + (sum_list (map originalSize (successful [r]))
        + sum_list (map originalSize (successful (results_of c w' fs))))"
    using step(3,4) by simp
  also have "\<dots> = totalOriginalSize s + sum_list (map originalSize (successful (r # results_of c w' fs)))"
    by (cases r) simp_all
  finally show ?case using step(2) by simp
qed

lemma totalSavedSize_for_entries:
  "totalSavedSize (for_entries c s (enumerate n fs)) =
     totalSavedSize s + sum_list (map savedSize (successful (results_of c (world s) fs)))"
proof (induction fs arbitrary: n s)
  case Nil
  show ?case by simp
next
  case (Cons f fs)
  obtain r w' evs where c: "c f (world s) = (r, w', evs)" by (cases "c f (world s)")
  note step = totals_step [of c f s r w' evs, OF c]
  have "totalSavedSize (for_entries c s (enumerate n (f # fs))) =
      totalSavedSize (iteration (c f) s n f)
        + sum_list (map savedSize (successful (results_of c w' fs)))"
    using Cons.IH [where n = "Suc n" and s = "iteration (c f) s n f"] step(1) by simp
  also have "\<dots> = totalSavedSize s + (sum_list (map savedSize (successful [r]))
        + sum_list (map savedSize (successful (results_of c w' fs))))"
    using step(3,4) by simp
  also have "\<dots> = totalSavedSize s + sum_list (map savedSize (successful (r # results_of c w' fs)))"
    by (cases r) simp_all
  finally show ?case using step(2) by simp
qed

section \<open>The example environment, evaluated\<close>

lemma example_env_fields:
  "os_readdir example_env = (\<lambda>w dir. example_listing dir)"
  "os_ensureDir example_env = (\<lambda>w dir.
     if dir = ''/readonly/out'' then (Some (SystemError ''EACCES''), w) else (None, w))"
  "os_stat_size example_env = (\<lambda>w p.
     case map_of w p of None \<Rightarrow> Inl (SystemError ''ENOENT'') | Some n \<Rightarrow> Inr n)"
  "sharp_format example_env = (\<lambda>enc q.
     if 1 \<le> q \<and> q \<le> 100 then None else Some (SharpError ''quality''))"
  "sharp_toFile example_env = (\<lambda>w enc q inp out.
     case map_of w inp of
       None \<Rightarrow> (Some (SharpError ''missing''), w)
     | Some n \<Rightarrow>
         if n < 8192 then (Some (SharpError ''unsupported image format''), w)
         else (None, (out, if enc = Png then 2 * n else n div 2) # w))"
  "path_join example_env = (\<lambda>a b. a @ ''/'' @ b)"
  by (simp_all add: example_env_def)

lemmas compressImage_unfold =
  compressImage_def compressImage_jpeg_def getFileSizeInMB_def switch_targetExt_def
  configure_def encode_and_measure_def toLowerCase_def to_lower_char_def

lemma example_imageFiles:
  "imageFiles [''a.jpg'', ''notes.txt'', ''b.PNG''] = [''a.jpg'', ''b.PNG'']"
  "imageFiles [''readme.md'', ''sub''] = []"
  "imageFiles [''album.png'', ''.jpg''] = [''album.png'', ''.jpg'']"
  "imageFiles [''c.webp''] = [''c.webp'']"
  by (simp_all add: imageFiles_def is_image_name_def image_extensions_def endsWith_def
      toLowerCase_def to_lower_char_def)

lemma example_a_png:
  "compressImage example_env example_world ''photos/a.jpg'' ''out/a.png'' 60 ''png'' =
     (Some \<lparr>originalSize = 2, compressedSize = 4, savedSize = - 2\<rparr>,
      (''out/a.png'', 4194304) # example_world,
      [ToFile Png 60 ''photos/a.jpg'' ''out/a.png''])"
  by (simp add: compressImage_unfold example_env_fields example_world_def)

section \<open>A run that reaches the loop\<close>

lemma run_reaches_loop:
  assumes "os_readdir env w src = Inr ents" and "imageFiles (map d_name ents) = files"
    and "files \<noteq> []" and "os_ensureDir env w dst = (None, w1)"
  shows "compressImagesInDirectory env w src dst q t =
           finish (process_files env src dst q t (initial_state w1 dst (length files)) files)
             (length files)"
    and "compressImagesInDirectory_jpeg env w src dst q =
           finish (process_files_jpeg env src dst q (initial_state w1 dst (length files)) files)
             (length files)"
  using assms
  by (simp_all add: compressImagesInDirectory_def compressImagesInDirectory_jpeg_def
      fs_readdir_def)

lemma progress_updates_finish:
  "progress_updates (snd (finish s n)) = progress_updates (trace s)"
  by (simp add: finish_def summary_def progress_updates_def)

lemma progress_updates_initial_state: "progress_updates (trace (initial_state w dst n)) = []"
  by (simp add: initial_state_def progress_updates_def)

lemma turn_of_file:
  assumes "k < length files"
    and "\<And>w. progress_updates (snd (snd (c (files ! k) w))) = []"
  shows "\<exists>evs. trace (for_entries c s (enumerate 0 (take (Suc k) files)))
            = trace (for_entries c s (enumerate 0 (take k files)))
                @ SpinnerText (files ! k) # evs @ [ProgressUpdate (Suc k)]
          \<and> progress_updates evs = []"
proof -
  define sk where "sk = for_entries c s (enumerate 0 (take k files))"
  obtain evs where tr: "trace (iteration (c (files ! k)) sk k (files ! k)) =
      trace sk @ [SpinnerText (files ! k)] @ snd (snd (c (files ! k) (world sk))) @ evs
        @ [ProgressUpdate (Suc k)]"
    and quiet: "progress_updates evs = []"
    using trace_iteration [of "c (files ! k)" sk k "files ! k"] by blast
  have "trace (for_entries c s (enumerate 0 (take (Suc k) files)))
      = trace sk @ SpinnerText (files ! k) # (snd (snd (c (files ! k) (world sk))) @ evs)
          @ [ProgressUpdate (Suc k)]"
    using for_entries_take_Suc [OF assms(1), of c s 0] tr by (simp add: sk_def)
  moreover have "progress_updates (snd (snd (c (files ! k) (world sk))) @ evs) = []"
    using assms(2) quiet by (simp add: progress_updates_append)
  ultimately show ?thesis unfolding sk_def by blast
qed

section \<open>Example runs\<close>

lemma example_hyps:
  "os_readdir example_env example_world ''mixed''
     = Inr [\<lparr>d_name = ''album.png'', d_kind = Directory\<rparr>, \<lparr>d_name = ''.jpg'', d_kind = File\<rparr>]"
  "os_readdir example_env example_world ''photos''
     = Inr [\<lparr>d_name = ''a.jpg'', d_kind = File\<rparr>, \<lparr>d_name = ''notes.txt'', d_kind = File\<rparr>,
            \<lparr>d_name = ''b.PNG'', d_kind = File\<rparr>]"
  "os_readdir example_env example_world ''broken'' = Inr [\<lparr>d_name = ''c.webp'', d_kind = File\<rparr>]"
  "os_ensureDir example_env example_world ''out'' = (None, example_world)"
  "os_ensureDir example_env example_world ''/readonly/out''
     = (Some (SystemError ''EACCES''), example_world)"
  by (simp_all add: example_env_fields example_listing_def)

lemmas compress_file_unfold =
  compress_file_def compress_file_jpeg_def outputPath_def outputPath_jpeg_def
  path_parse_name_def Let_def

lemma example_compress_mixed:
  "compress_file example_env ''mixed'' ''out'' 60 ''webp'' ''album.png'' example_world =
     (None, example_world,
      [ToFile Webp 60 ''mixed/album.png'' ''out/album.webp'',
       ErrorCompressing ''mixed/album.png'' (SharpError ''unsupported image format'')])"
  "compress_file example_env ''mixed'' ''out'' 60 ''webp'' ''.jpg'' example_world =
     (Some \<lparr>originalSize = 1 / 2, compressedSize = 1 / 4, savedSize = 1 / 4\<rparr>,
      (''out/.jpg.webp'', 262144) # example_world,
      [ToFile Webp 60 ''mixed/.jpg'' ''out/.jpg.webp''])"
  by (simp_all add: compress_file_unfold compressImage_unfold example_env_fields example_world_def)

lemma example_loop_mixed:
  "process_files example_env ''mixed'' ''out'' 60 ''webp'' (initial_state example_world ''out'' 2)
     [''album.png'', ''.jpg''] =
   \<lparr>world = (''out/.jpg.webp'', 262144) # example_world,
    trace = [EnsureDir ''out'', SpinnerStart, ProgressStart 2 0,
       SpinnerText ''album.png'', ToFile Webp 60 ''mixed/album.png'' ''out/album.webp'',
       ErrorCompressing ''mixed/album.png'' (SharpError ''unsupported image format''),
       ProgressUpdate 1,
       SpinnerText ''.jpg'', ToFile Webp 60 ''mixed/.jpg'' ''out/.jpg.webp'',
       LogFileInfo ''.jpg'' (1 / 2) (1 / 4) (1 / 4), ProgressUpdate 2],
    totalSavedSize = 1 / 4, totalOriginalSize = 1 / 2, bar_value = 2\<rparr>"
proof -
  let ?c = "compress_file example_env ''mixed'' ''out'' 60 ''webp''"
  let ?s1 = "\<lparr>world = example_world,
    trace = [EnsureDir ''out'', SpinnerStart, ProgressStart 2 0,
       SpinnerText ''album.png'', ToFile Webp 60 ''mixed/album.png'' ''out/album.webp'',
       ErrorCompressing ''mixed/album.png'' (SharpError ''unsupported image format''),
       ProgressUpdate (Suc 0)],
    totalSavedSize = 0, totalOriginalSize = 0, bar_value = Suc 0\<rparr>"
  have 1: "iteration (?c ''album.png'') (initial_state example_world ''out'' 2) 0 ''album.png''
      = ?s1"
    by (simp add: iteration_def initial_state_def example_compress_mixed)
  have 2: "iteration (?c ''.jpg'') ?s1 (Suc 0) ''.jpg'' =
    \<lparr>world = (''out/.jpg.webp'', 262144) # example_world,
     trace = [EnsureDir ''out'', SpinnerStart, ProgressStart 2 0,
       SpinnerText ''album.png'', ToFile Webp 60 ''mixed/album.png'' ''out/album.webp'',
       ErrorCompressing ''mixed/album.png'' (SharpError ''unsupported image format''),
       ProgressUpdate 1,
       SpinnerText ''.jpg'', ToFile Webp 60 ''mixed/.jpg'' ''out/.jpg.webp'',
       LogFileInfo ''.jpg'' (1 / 2) (1 / 4) (1 / 4), ProgressUpdate 2],
     totalSavedSize = 1 / 4, totalOriginalSize = 1 / 2, bar_value = 2\<rparr>"
    by (simp add: iteration_def example_compress_mixed)
  show ?thesis
    unfolding process_files_def
    by (simp add: 1 2)
qed

lemma example_mixed_files:
  "imageFiles (map d_name
      [\<lparr>d_name = ''album.png'', d_kind = Directory\<rparr>, \<lparr>d_name = ''.jpg'', d_kind = File\<rparr>])
     = [''album.png'', ''.jpg'']"
  by (simp add: example_imageFiles)

lemma example_run_mixed:
  "compressImagesInDirectory example_env example_world ''mixed'' ''out'' 60 ''webp'' =
     ((''out/.jpg.webp'', 262144) # example_world,
      [EnsureDir ''out'', SpinnerStart, ProgressStart 2 0,
       SpinnerText ''album.png'', ToFile Webp 60 ''mixed/album.png'' ''out/album.webp'',
       ErrorCompressing ''mixed/album.png'' (SharpError ''unsupported image format''),
       ProgressUpdate 1,
       SpinnerText ''.jpg'', ToFile Webp 60 ''mixed/.jpg'' ''out/.jpg.webp'',
       LogFileInfo ''.jpg'' (1 / 2) (1 / 4) (1 / 4), ProgressUpdate 2,
       ProgressStop, SpinnerSucceed, LogSummaryHeader, LogTotalImages 2,
       LogTotalOriginalSize (1 / 2), LogTotalSavedSize (1 / 4) (Finite 50), LogTimeTaken])"
proof -
  have len: "length [''album.png'', ''.jpg''] = 2" by simp
  have files: "[''album.png'', ''.jpg''] \<noteq> []" by simp
  show ?thesis
    unfolding run_reaches_loop(1) [OF example_hyps(1) example_mixed_files files example_hyps(4)]
      len example_loop_mixed
    by (simp add: finish_def summary_def totalSpaceSavedPercentage_def
        js_divide_def js_times_def)
qed

lemma example_compress_broken:
  "compress_file example_env ''broken'' ''out'' 60 ''webp'' ''c.webp'' example_world =
     (None, example_world,
      [ToFile Webp 60 ''broken/c.webp'' ''out/c.webp'',
       ErrorCompressing ''broken/c.webp'' (SharpError ''unsupported image format'')])"
  by (simp add: compress_file_unfold compressImage_unfold example_env_fields example_world_def)

lemma example_broken_files:
  "imageFiles (map d_name [\<lparr>d_name = ''c.webp'', d_kind = File\<rparr>]) = [''c.webp'']"
  by (simp add: example_imageFiles)

lemma example_run_broken:
  "compressImagesInDirectory example_env example_world ''broken'' ''out'' 60 ''webp'' =
     (example_world,
      [EnsureDir ''out'', SpinnerStart, ProgressStart 1 0,
       SpinnerText ''c.webp'', ToFile Webp 60 ''broken/c.webp'' ''out/c.webp'',
       ErrorCompressing ''broken/c.webp'' (SharpError ''unsupported image format''),
       ProgressUpdate 1,
       ProgressStop, SpinnerSucceed, LogSummaryHeader, LogTotalImages 1,
       LogTotalOriginalSize 0, LogTotalSavedSize 0 NaN, LogTimeTaken])"
proof -
  have "compressImagesInDirectory example_env example_world ''broken'' ''out'' 60 ''webp'' =
      finish (process_files example_env ''broken'' ''out'' 60 ''webp''
                (initial_state example_world ''out'' (length [''c.webp''])) [''c.webp''])
        (length [''c.webp''])"
    by (rule run_reaches_loop(1) [OF example_hyps(3) example_broken_files _ example_hyps(4)])
      simp
  moreover have "iteration (compress_file example_env ''broken'' ''out'' 60 ''webp'' ''c.webp'')
      (initial_state example_world ''out'' (Suc 0)) 0 ''c.webp'' =
    \<lparr>world = example_world,
     trace = [EnsureDir ''out'', SpinnerStart, ProgressStart 1 0,
       SpinnerText ''c.webp'', ToFile Webp 60 ''broken/c.webp'' ''out/c.webp'',
       ErrorCompressing ''broken/c.webp'' (SharpError ''unsupported image format''),
       ProgressUpdate 1],
     totalSavedSize = 0, totalOriginalSize = 0, bar_value = 1\<rparr>"
    by (simp add: iteration_def initial_state_def example_compress_broken)
  ultimately show ?thesis
    by (simp add: process_files_def finish_def summary_def totalSpaceSavedPercentage_def
        js_divide_def js_times_def)
qed

lemma example_photos_files:
  "imageFiles (map d_name
      [\<lparr>d_name = ''a.jpg'', d_kind = File\<rparr>, \<lparr>d_name = ''notes.txt'', d_kind = File\<rparr>,
       \<lparr>d_name = ''b.PNG'', d_kind = File\<rparr>]) = [''a.jpg'', ''b.PNG'']"
  by (simp add: example_imageFiles)

lemma example_run_readonly:
  "compressImagesInDirectory example_env example_world ''photos'' ''/readonly/out'' 60 ''webp'' =
     (example_world,
      [EnsureDir ''/readonly/out'', ErrorProcessingDirectory (SystemError ''EACCES'')])"
  using example_photos_files
  by (simp add: compressImagesInDirectory_def fs_readdir_def example_hyps)

section \<open>The summary\<close>

lemma length_results_of: "length (results_of c w fs) = length fs"
  by (induction fs arbitrary: w) (auto split: prod.splits)

lemma finish_for_entries:
  "snd (finish (for_entries c (initial_state w1 dst n) (enumerate 0 files)) n) =
     (trace (for_entries c (initial_state w1 dst n) (enumerate 0 files))
        @ [ProgressStop, SpinnerSucceed])
     @ [LogSummaryHeader, LogTotalImages n,
        LogTotalOriginalSize (sum_list (map originalSize (successful (results_of c w1 files)))),
        LogTotalSavedSize (sum_list (map savedSize (successful (results_of c w1 files))))
          (totalSpaceSavedPercentage
             (sum_list (map savedSize (successful (results_of c w1 files))))
             (sum_list (map originalSize (successful (results_of c w1 files))))),
        LogTimeTaken]"
  by (simp add: finish_def summary_def totalOriginalSize_for_entries
      totalSavedSize_for_entries initial_state_def)

lemma percentage_cases:
  "totalSpaceSavedPercentage saved orig =
     (if orig = 0 then (if saved = 0 then NaN else if 0 < saved then PosInfinity else NegInfinity)
      else Finite (saved / orig * 100))"
  by (simp add: totalSpaceSavedPercentage_def js_divide_def js_times_def)

lemma compress_file_bounds:
  assumes "compress_file env src dst q t f w = (Some r, w', evs)
         \<or> compress_file_jpeg env src dst q f w = (Some r, w', evs)"
  shows "0 \<le> originalSize r \<and> savedSize r \<le> originalSize r"
proof -
  from assms obtain inp out t' where "compressImage env w inp out q t' = (Some r, w', evs)"
    by (auto simp: compress_file_def compress_file_jpeg_def compressImage_jpeg_eq)
  from compressImage_Some [OF this] show ?thesis by auto
qed

lemma successful_sums_bounded:
  assumes "\<And>f w r w' evs. c f w = (Some r, w', evs)
             \<Longrightarrow> 0 \<le> originalSize r \<and> savedSize r \<le> originalSize r"
  shows "0 \<le> sum_list (map originalSize (successful (results_of c w fs)))
       \<and> sum_list (map savedSize (successful (results_of c w fs)))
           \<le> sum_list (map originalSize (successful (results_of c w fs)))"
proof (induction fs arbitrary: w)
  case Nil
  show ?case by simp
next
  case (Cons f fs)
  obtain r w' evs where c: "c f w = (r, w', evs)" by (cases "c f w")
  show ?case
  proof (cases r)
    case None
    with c Cons.IH [of w'] show ?thesis by simp
  next
    case (Some x)
    with c assms [of f w x w' evs] Cons.IH [of w'] show ?thesis by simp
  qed
qed

lemma example_results_mixed:
  "[None, Some \<lparr>originalSize = 1 / 2, compressedSize = 1 / 4, savedSize = 1 / 4\<rparr>] =
     results_of (compress_file example_env ''mixed'' ''out'' 60 ''webp'') example_world
       [''album.png'', ''.jpg'']"
  by (simp add: example_compress_mixed)

section \<open>The encoder runs of one file\<close>

lemma compress_file_encoder_runs:
  "encoder_runs (snd (snd (compress_file env src dst q t file w))) = []
   \<or> (\<exists>enc. encoder_runs (snd (snd (compress_file env src dst q t file w)))
         = [ToFile enc q (path_join env src file) (outputPath env dst file t)])"
proof -
  obtain r w' evs where c: "compressImage env w (path_join env src file)
      (outputPath env dst file t) q t = (r, w', evs)"
    by (cases "compressImage env w (path_join env src file) (outputPath env dst file t) q t")
  then have cf: "compress_file env src dst q t file w = (r, w', evs)"
    by (simp add: compress_file_def)
  show ?thesis
  proof (cases r)
    case None
    with c have "compressImage env w (path_join env src file)
      (outputPath env dst file t) q t = (None, w', evs)" by simp
    from compressImage_None [OF this] show ?thesis
      by (auto simp: cf encoder_runs_def)
  next
    case (Some x)
    with c have "compressImage env w (path_join env src file)
      (outputPath env dst file t) q t = (Some x, w', evs)" by simp
    from compressImage_Some [OF this] show ?thesis
      by (auto simp: cf encoder_runs_def)
  qed
qed

lemma compress_file_jpeg_encoder_runs:
  "encoder_runs (snd (snd (compress_file_jpeg env src dst q file w))) = []
   \<or> encoder_runs (snd (snd (compress_file_jpeg env src dst q file w)))
       = [ToFile Jpeg q (path_join env src file) (outputPath_jpeg env dst file)]"
proof -
  obtain r w' evs where c: "compressImage_jpeg env w (path_join env src file)
      (outputPath_jpeg env dst file) q = (r, w', evs)"
    by (cases "compressImage_jpeg env w (path_join env src file) (outputPath_jpeg env dst file) q")
  then have cf: "compress_file_jpeg env src dst q file w = (r, w', evs)"
    by (simp add: compress_file_jpeg_def)
  show ?thesis
  proof (cases r)
    case None
    with c have "compressImage_jpeg env w (path_join env src file)
      (outputPath_jpeg env dst file) q = (None, w', evs)" by simp
    from compressImage_jpeg_None [OF this] show ?thesis
      by (auto simp: cf encoder_runs_def)
  next
    case (Some x)
    with c have "compressImage_jpeg env w (path_join env src file)
      (outputPath_jpeg env dst file) q = (Some x, w', evs)" by simp
    from compressImage_jpeg_Some [OF this] show ?thesis
      by (auto simp: cf encoder_runs_def)
  qed
qed

lemma example_is_image_name:
  "is_image_name ''.jpg''" "is_image_name ''a.jpg''"
  by (simp_all add: is_image_name_def image_extensions_def endsWith_def
      toLowerCase_def to_lower_char_def)

lemma example_compress_jpeg_b:
  "compress_file_jpeg example_env ''photos'' ''out'' 80 ''b.PNG'' example_world =
     (Some \<lparr>originalSize = 1, compressedSize = 1 / 2, savedSize = 1 / 2\<rparr>,
      (''out/b.PNG'', 524288) # example_world,
      [ToFile Jpeg 80 ''photos/b.PNG'' ''out/b.PNG''])"
  by (simp add: compress_file_unfold compressImage_unfold example_env_fields example_world_def)

section \<open>Failures of single files\<close>

lemma switch_unsupported:
  assumes "toLowerCase t \<notin> {''jpg'', ''jpeg'', ''png'', ''webp''}"
  shows "switch_targetExt env q t = Inl (UnsupportedTargetExtension t)"
  using assms by (auto simp: switch_targetExt_def Let_def)

lemma compressImage_unsupported:
  assumes "toLowerCase t \<notin> {''jpg'', ''jpeg'', ''png'', ''webp''}"
  shows "compressImage env w inp out q t =
           (None, w, [ErrorCompressing inp
              (case os_stat_size env w inp of
                 Inl e \<Rightarrow> e
               | Inr n \<Rightarrow> UnsupportedTargetExtension t)])"
  by (simp add: compressImage_def getFileSizeInMB_def switch_unsupported [OF assms]
      split: sum.splits)

lemma all_fail_for_entries:
  assumes "\<And>f w. \<exists>e. c f w = (None, w, [ErrorCompressing (p f) e])"
  shows "world (for_entries c s (enumerate n fs)) = world s
       \<and> encoder_runs (trace (for_entries c s (enumerate n fs))) = encoder_runs (trace s)
       \<and> error_paths (trace (for_entries c s (enumerate n fs)))
           = error_paths (trace s) @ map p fs
       \<and> totalOriginalSize (for_entries c s (enumerate n fs)) = totalOriginalSize s
       \<and> totalSavedSize (for_entries c s (enumerate n fs)) = totalSavedSize s"
proof (induction fs arbitrary: n s)
  case Nil
  show ?case by simp
next
  case (Cons f fs)
  obtain e where c: "c f (world s) = (None, world s, [ErrorCompressing (p f) e])"
    using assms by blast
  define s' where "s' = iteration (c f) s n f"
  have s': "s' = s\<lparr>world := world s,
      trace := trace s @ [SpinnerText f] @ [ErrorCompressing (p f) e] @ [ProgressUpdate (Suc n)],
      bar_value := Suc n\<rparr>"
    unfolding s'_def by (rule iteration_None [of "c f" s, OF c])
  have "world s' = world s" "encoder_runs (trace s') = encoder_runs (trace s)"
    "error_paths (trace s') = error_paths (trace s) @ [p f]"
    "totalOriginalSize s' = totalOriginalSize s" "totalSavedSize s' = totalSavedSize s"
    by (simp_all add: s' encoder_runs_def error_paths_def)
  with Cons.IH [where n = "Suc n" and s = s'] show ?case
    by (simp add: s'_def)
qed

lemma compressImage_succeeds_iff:
  "(\<exists>r. fst (compressImage env w inp out q t) = Some r) \<longleftrightarrow>
     (\<exists>n enc w2 m. os_stat_size env w inp = Inr n \<and> switch_targetExt env q t = Inr enc
        \<and> sharp_toFile env w enc q inp out = (None, w2) \<and> os_stat_size env w2 out = Inr m)"
proof
  assume "\<exists>r. fst (compressImage env w inp out q t) = Some r"
  then obtain r w' evs where "compressImage env w inp out q t = (Some r, w', evs)"
    by (cases "compressImage env w inp out q t") auto
  from compressImage_Some [OF this]
  show "\<exists>n enc w2 m. os_stat_size env w inp = Inr n \<and> switch_targetExt env q t = Inr enc
        \<and> sharp_toFile env w enc q inp out = (None, w2) \<and> os_stat_size env w2 out = Inr m"
    by blast
next
  assume "\<exists>n enc w2 m. os_stat_size env w inp = Inr n \<and> switch_targetExt env q t = Inr enc
        \<and> sharp_toFile env w enc q inp out = (None, w2) \<and> os_stat_size env w2 out = Inr m"
  then show "\<exists>r. fst (compressImage env w inp out q t) = Some r"
    by (auto simp: compressImage_def encode_and_measure_def getFileSizeInMB_def)
qed

lemma state_before_Suc:
  assumes "k < length files"
  shows "state_before env src dst q t s0 files (Suc k) =
           iteration (compress_file env src dst q t (files ! k))
             (state_before env src dst q t s0 files k) k (files ! k)"
  using for_entries_take_Suc [OF assms, of "compress_file env src dst q t" s0 0]
  by (simp add: state_before_def process_files_def)

lemma loop_resumes:
  assumes "k < length files"
  shows "process_files env src dst q t s0 files =
           for_entries (compress_file env src dst q t)
             (state_before env src dst q t s0 files (Suc k))
             (enumerate (Suc k) (drop (Suc k) files))"
proof -
  have "enumerate 0 files =
      enumerate 0 (take (Suc k) files @ drop (Suc k) files)" by simp
  also have "\<dots> = enumerate 0 (take (Suc k) files)
      @ enumerate (Suc k) (drop (Suc k) files)"
    unfolding enumerate_append_eq using assms by (simp add: min_absorb2)
  finally show ?thesis
    by (simp add: process_files_def state_before_def for_entries_append)
qed

section \<open>The files a run announces\<close>

lemma attempted_run:
  assumes "os_readdir env w src = Inr ents" and "imageFiles (map d_name ents) \<noteq> []"
    and "os_ensureDir env w dst = (None, w1)"
  shows "attempted (snd (compressImagesInDirectory env w src dst q t))
           = imageFiles (map d_name ents)"
    and "attempted (snd (compressImagesInDirectory_jpeg env w src dst q))
           = imageFiles (map d_name ents)"
proof -
  have fin: "attempted (snd (finish s n)) = attempted (trace s)" for s :: "'a loop_state" and n
    by (simp add: finish_def summary_def attempted_def)
  have ini: "attempted (trace (initial_state w1 dst n)) = []" for n
    by (simp add: initial_state_def attempted_def)
  show "attempted (snd (compressImagesInDirectory env w src dst q t))
           = imageFiles (map d_name ents)"
    unfolding run_reaches_loop(1) [OF assms(1) refl assms(2,3)] fin process_files_def
    by (simp add: attempted_for_entries compress_file_quiet ini)
  show "attempted (snd (compressImagesInDirectory_jpeg env w src dst q))
           = imageFiles (map d_name ents)"
    unfolding run_reaches_loop(2) [OF assms(1) refl assms(2,3)] fin process_files_jpeg_def
    by (simp add: attempted_for_entries compress_file_jpeg_quiet ini)
qed

section \<open>The percentage saved of the summary\<close>

text \<open>
  Claim C1, as stated, fails: the quotient is computed without any guard. Here the one
  discovered file is rejected by the codec, both totals stay zero and the summary shows
  the percentage \<open>NaN\<close>.
\<close>

theorem percentage_NaN_when_every_file_fails:
  "compressImagesInDirectory example_env example_world ''broken'' ''out'' 60 ''webp'' =
     (example_world,
      [EnsureDir ''out'', SpinnerStart, ProgressStart 1 0,
       SpinnerText ''c.webp'', ToFile Webp 60 ''broken/c.webp'' ''out/c.webp'',
       ErrorCompressing ''broken/c.webp'' (SharpError ''unsupported image format''),
       ProgressUpdate 1,
       ProgressStop, SpinnerSucceed, LogSummaryHeader, LogTotalImages 1,
       LogTotalOriginalSize 0, LogTotalSavedSize 0 NaN, LogTimeTaken])"
  by (rule example_run_broken)

text \<open>
  Claim C1, amended. In every run that prints a summary, in both variants, the percentage
  shown is the unguarded quotient of the two totals times 100: a finite number exactly
  when the total original size is not zero. When the total original size is zero the
  summary shows \<open>NaN\<close> if the total saved size is zero as well, which is the case whenever
  no compression succeeded, and negative infinity otherwise (zero-byte originals with
  non-empty outputs).
\<close>

theorem percentage_saved_unguarded:
  assumes "os_readdir env w src = Inr ents" and "imageFiles (map d_name ents) = files"
    and "files \<noteq> []" and "os_ensureDir env w dst = (None, w1)"
  shows "\<forall>(c, run) \<in> {(compress_file env src dst q t,
                        compressImagesInDirectory env w src dst q t),
                       (compress_file_jpeg env src dst q,
                        compressImagesInDirectory_jpeg env w src dst q)}.
           let orig = sum_list (map originalSize (successful (results_of c w1 files)));
               saved = sum_list (map savedSize (successful (results_of c w1 files)))
           in 0 \<le> orig \<and> saved \<le> orig
              \<and> (\<exists>pre. snd run =
                    pre @ [LogSummaryHeader, LogTotalImages (length files),
                           LogTotalOriginalSize orig,
                           LogTotalSavedSize saved
                             (if orig = 0 then (if saved = 0 then NaN else NegInfinity)
                              else Finite (saved / orig * 100)),
                           LogTimeTaken])"
proof -
  have main: "0 \<le> orig \<and> saved \<le> orig
      \<and> (\<exists>pre. snd (finish (for_entries c (initial_state w1 dst (length files))
                                (enumerate 0 files)) (length files)) =
            pre @ [LogSummaryHeader, LogTotalImages (length files),
                   LogTotalOriginalSize orig,
                   LogTotalSavedSize saved
                     (if orig = 0 then (if saved = 0 then NaN else NegInfinity)
                      else Finite (saved / orig * 100)),
                   LogTimeTaken])"
    if c: "c = compress_file env src dst q t \<or> c = compress_file_jpeg env src dst q"
      and orig: "orig = sum_list (map originalSize (successful (results_of c w1 files)))"
      and saved: "saved = sum_list (map savedSize (successful (results_of c w1 files)))"
    for c orig saved
  proof -
    have "0 \<le> originalSize r \<and> savedSize r \<le> originalSize r"
      if "c f w = (Some r, w', evs)" for f w r w' evs
      using c that compress_file_bounds [of env src dst q t f w r w' evs] by auto
    from successful_sums_bounded [of c w1 files, OF this]
    have b: "0 \<le> orig \<and> saved \<le> orig" by (simp add: orig saved)
    then have "totalSpaceSavedPercentage saved orig =
        (if orig = 0 then (if saved = 0 then NaN else NegInfinity)
         else Finite (saved / orig * 100))"
      by (auto simp: percentage_cases)
    then have "snd (finish (for_entries c (initial_state w1 dst (length files))
                                (enumerate 0 files)) (length files)) =
        (trace (for_entries c (initial_state w1 dst (length files)) (enumerate 0 files))
           @ [ProgressStop, SpinnerSucceed])
        @ [LogSummaryHeader, LogTotalImages (length files),
           LogTotalOriginalSize orig,
           LogTotalSavedSize saved
             (if orig = 0 then (if saved = 0 then NaN else NegInfinity)
              else Finite (saved / orig * 100)),
           LogTimeTaken]"
      unfolding finish_for_entries orig saved by simp
    with b show ?thesis by blast
  qed
  show ?thesis
    using main [of "compress_file env src dst q t", OF _ refl refl]
      main [of "compress_file_jpeg env src dst q", OF _ refl refl]
    unfolding run_reaches_loop [OF assms] process_files_def process_files_jpeg_def
    by (simp add: Let_def)
qed

theorem percentage_saved_unguarded_witness:
  "os_readdir example_env example_world ''broken'' = Inr [\<lparr>d_name = ''c.webp'', d_kind = File\<rparr>]
   \<and> imageFiles (map d_name [\<lparr>d_name = ''c.webp'', d_kind = File\<rparr>]) = [''c.webp'']
   \<and> [''c.webp''] \<noteq> []
   \<and> os_ensureDir example_env example_world ''out'' = (None, example_world)
   \<and> (\<exists>pre. snd (compressImagesInDirectory example_env example_world ''broken'' ''out'' 60 ''webp'')
          = pre @ [LogSummaryHeader, LogTotalImages (length [''c.webp'']),
                   LogTotalOriginalSize 0, LogTotalSavedSize 0 NaN, LogTimeTaken])"
proof -
  have files: "[''c.webp''] \<noteq> []" by simp
  have "\<exists>pre. snd (compressImagesInDirectory example_env example_world ''broken'' ''out'' 60 ''webp'')
          = pre @ [LogSummaryHeader, LogTotalImages (length [''c.webp'']),
                   LogTotalOriginalSize 0, LogTotalSavedSize 0 NaN, LogTimeTaken]"
    using percentage_saved_unguarded [OF example_hyps(3) example_broken_files files
        example_hyps(4), of 60 "''webp''"]
    by (simp add: Let_def example_compress_broken)
  then show ?thesis
    by (intro conjI example_hyps(3) example_broken_files files example_hyps(4))
qed

section \<open>The destination path\<close>

text \<open>
  Claim C2, as stated, fails. The first variant keeps the file name unchanged: the
  discovered file \<^verbatim>\<open>b.PNG\<close> is written, as JPEG, to \<^verbatim>\<open>out/b.PNG\<close>. In the second
  variant a discovered file whose only dot is its first character, such as \<^verbatim>\<open>.jpg\<close>, has
  no extension for \<^verbatim>\<open>path.parse\<close>, and the dot and the target extension are appended to
  the whole name.
\<close>

theorem extension_kept_or_appended:
  "compress_file_jpeg example_env ''photos'' ''out'' 80 ''b.PNG'' example_world =
     (Some \<lparr>originalSize = 1, compressedSize = 1 / 2, savedSize = 1 / 2\<rparr>,
      (''out/b.PNG'', 524288) # example_world,
      [ToFile Jpeg 80 ''photos/b.PNG'' ''out/b.PNG''])
   \<and> is_image_name ''.jpg''
   \<and> compress_file example_env ''mixed'' ''out'' 60 ''webp'' ''.jpg'' example_world =
       (Some \<lparr>originalSize = 1 / 2, compressedSize = 1 / 4, savedSize = 1 / 4\<rparr>,
        (''out/.jpg.webp'', 262144) # example_world,
        [ToFile Webp 60 ''mixed/.jpg'' ''out/.jpg.webp''])"
  by (intro conjI example_is_image_name(1) example_compress_mixed(2) example_compress_jpeg_b)

text \<open>
  Claim C2, amended. A discovered file name is \<open>stem.ext\<close> with \<open>ext\<close> one of the four
  image extensions in any case. In the second variant the encoder writes to the export
  directory joined with \<open>stem\<close>, a dot and the target extension as configured, so the
  original extension is replaced, unless \<open>stem\<close> is empty: then the dot and the target
  extension are appended to the whole name. In the first variant, which has no target
  format, the encoder writes to the export directory joined with the unchanged name.
\<close>

theorem destination_path:
  assumes "is_image_name file"
  shows "(\<exists>stem ext. file = stem @ ''.'' @ ext \<and> toLowerCase ext \<in> set image_extensions
            \<and> outputPath env dst file t
                = path_join env dst ((if stem = [] then file else stem) @ ''.'' @ t))
       \<and> outputPath_jpeg env dst file = path_join env dst file
       \<and> (encoder_runs (snd (snd (compress_file env src dst q t file w))) = []
           \<or> (\<exists>enc. encoder_runs (snd (snd (compress_file env src dst q t file w)))
                 = [ToFile enc q (path_join env src file) (outputPath env dst file t)]))
       \<and> (encoder_runs (snd (snd (compress_file_jpeg env src dst q file w))) = []
           \<or> encoder_runs (snd (snd (compress_file_jpeg env src dst q file w)))
               = [ToFile Jpeg q (path_join env src file) (outputPath_jpeg env dst file)])"
proof (intro conjI)
  from assms obtain stem ext where f: "file = stem @ ''.'' @ ext"
    and e: "toLowerCase ext \<in> set image_extensions"
    by (auto simp: is_image_name_iff)
  have "path_parse_name file = (if stem = [] then file else stem)"
    using path_parse_name_split [OF no_dot_in_extension [OF e], of stem] f by simp
  then have "outputPath env dst file t
      = path_join env dst ((if stem = [] then file else stem) @ ''.'' @ t)"
    by (simp add: outputPath_def)
  with f e show "\<exists>stem ext. file = stem @ ''.'' @ ext \<and> toLowerCase ext \<in> set image_extensions
            \<and> outputPath env dst file t
                = path_join env dst ((if stem = [] then file else stem) @ ''.'' @ t)"
    by blast
  show "outputPath_jpeg env dst file = path_join env dst file"
    by (simp add: outputPath_jpeg_def)
  show "encoder_runs (snd (snd (compress_file env src dst q t file w))) = []
           \<or> (\<exists>enc. encoder_runs (snd (snd (compress_file env src dst q t file w)))
                 = [ToFile enc q (path_join env src file) (outputPath env dst file t)])"
    by (rule compress_file_encoder_runs)
  show "encoder_runs (snd (snd (compress_file_jpeg env src dst q file w))) = []
           \<or> encoder_runs (snd (snd (compress_file_jpeg env src dst q file w)))
               = [ToFile Jpeg q (path_join env src file) (outputPath_jpeg env dst file)]"
    by (rule compress_file_jpeg_encoder_runs)
qed

theorem destination_path_witness:
  "is_image_name ''a.jpg''
   \<and> (\<exists>stem ext. ''a.jpg'' = stem @ ''.'' @ ext \<and> toLowerCase ext \<in> set image_extensions
        \<and> outputPath example_env ''out'' ''a.jpg'' ''webp''
            = path_join example_env ''out''
                ((if stem = [] then ''a.jpg'' else stem) @ ''.'' @ ''webp''))
   \<and> outputPath example_env ''out'' ''a.jpg'' ''webp'' = ''out/a.webp''"
proof -
  have "outputPath example_env ''out'' ''a.jpg'' ''webp'' = ''out/a.webp''"
    by (simp add: outputPath_def path_parse_name_def example_env_fields)
  then show ?thesis
    by (intro conjI example_is_image_name(2)
        destination_path [OF example_is_image_name(2), THEN conjunct1])
qed

section \<open>An unsupported target format\<close>

text \<open>
  Claim C3, as stated, fails: the target format is compared after \<^verbatim>\<open>toLowerCase()\<close>. The
  string \<^verbatim>\<open>PNG\<close> is none of \<^verbatim>\<open>jpg\<close>, \<^verbatim>\<open>jpeg\<close>, \<^verbatim>\<open>png\<close>, \<^verbatim>\<open>webp\<close>, and with it
  \<open>compressImage\<close> runs the PNG encoder and returns a result.
\<close>

theorem uppercase_target_accepted:
  "''PNG'' \<notin> {''jpg'', ''jpeg'', ''png'', ''webp''}
   \<and> compressImage example_env example_world ''photos/a.jpg'' ''out/a.PNG'' 60 ''PNG'' =
       (Some \<lparr>originalSize = 2, compressedSize = 4, savedSize = - 2\<rparr>,
        (''out/a.PNG'', 4194304) # example_world,
        [ToFile Png 60 ''photos/a.jpg'' ''out/a.PNG''])"
  by (simp add: compressImage_unfold example_env_fields example_world_def)

text \<open>
  Claim C3, amended. When the configured target format, compared case-insensitively, is
  none of \<^verbatim>\<open>jpg\<close>, \<^verbatim>\<open>jpeg\<close>, \<^verbatim>\<open>png\<close>, \<^verbatim>\<open>webp\<close>, \<open>compressImage\<close> returns no result
  and leaves the world as it was, having logged one error with the input path (the
  unsupported extension, or the error of reading the input size) and run no encoder.
  The loop still takes every file in turn: each is announced and has its error logged
  under its input path, no encoder runs, and world and totals are unchanged.
\<close>

theorem unsupported_target_format:
  assumes "toLowerCase t \<notin> {''jpg'', ''jpeg'', ''png'', ''webp''}"
  shows "compressImage env w inp out q t =
           (None, w, [ErrorCompressing inp
              (case os_stat_size env w inp of
                 Inl e \<Rightarrow> e
               | Inr n \<Rightarrow> UnsupportedTargetExtension t)])
       \<and> world (process_files env src dst q t s files) = world s
       \<and> encoder_runs (trace (process_files env src dst q t s files)) = encoder_runs (trace s)
       \<and> attempted (trace (process_files env src dst q t s files)) = attempted (trace s) @ files
       \<and> error_paths (trace (process_files env src dst q t s files))
           = error_paths (trace s) @ map (path_join env src) files
       \<and> totalOriginalSize (process_files env src dst q t s files) = totalOriginalSize s
       \<and> totalSavedSize (process_files env src dst q t s files) = totalSavedSize s"
proof -
  have "\<exists>e. compress_file env src dst q t f w = (None, w, [ErrorCompressing (path_join env src f) e])"
    for f w
    by (simp add: compress_file_def Let_def compressImage_unsupported [OF assms])
  from all_fail_for_entries [of "compress_file env src dst q t" "path_join env src" s 0 files,
      OF this]
  show ?thesis
    by (simp add: process_files_def compressImage_unsupported [OF assms]
        attempted_for_entries compress_file_quiet)
qed

theorem unsupported_target_format_witness:
  "toLowerCase ''gif'' \<notin> {''jpg'', ''jpeg'', ''png'', ''webp''}
   \<and> compressImage example_env example_world ''photos/a.jpg'' ''out/a.gif'' 60 ''gif'' =
       (None, example_world,
        [ErrorCompressing ''photos/a.jpg''
           (case os_stat_size example_env example_world ''photos/a.jpg'' of
              Inl e \<Rightarrow> e
            | Inr n \<Rightarrow> UnsupportedTargetExtension ''gif'')])
   \<and> os_stat_size example_env example_world ''photos/a.jpg'' = Inr 2097152"
proof -
  have h: "toLowerCase ''gif'' \<notin> {''jpg'', ''jpeg'', ''png'', ''webp''}"
    by (simp add: toLowerCase_def to_lower_char_def)
  have st: "os_stat_size example_env example_world ''photos/a.jpg'' = Inr 2097152"
    by (simp add: example_env_fields example_world_def)
  show ?thesis
    by (intro conjI h st unsupported_target_format [OF h, THEN conjunct1])
qed

section \<open>The failure of one file\<close>

text \<open>
  Claim C4. Let the compression of the file of index \<open>k\<close> return no result, in the state
  in which its turn starts. Then the events of the call end with the error logged under
  the input path of that file; the turn changes the world as the call left it, extends
  the trace and sets the progress bar, and leaves both totals as they were; the loop
  then runs on with the remaining files from that state, and over the whole loop every
  file is announced in listing order, whatever failed. A compression returns no result
  exactly when one of its steps fails: reading the size of the input, selecting the
  format, the encoder run, or reading the size of the output.
\<close>

theorem failure_is_logged_and_skipped:
  assumes "k < length files"
    and "compress_file env src dst q t (files ! k)
           (world (state_before env src dst q t s0 files k)) = (None, w', evs)"
  shows "(\<exists>pre e. evs = pre @ [ErrorCompressing (path_join env src (files ! k)) e])
       \<and> state_before env src dst q t s0 files (Suc k) =
           (state_before env src dst q t s0 files k)
             \<lparr>world := w',
              trace := trace (state_before env src dst q t s0 files k)
                @ [SpinnerText (files ! k)] @ evs @ [ProgressUpdate (Suc k)],
              bar_value := Suc k\<rparr>
       \<and> totalOriginalSize (state_before env src dst q t s0 files (Suc k))
           = totalOriginalSize (state_before env src dst q t s0 files k)
       \<and> totalSavedSize (state_before env src dst q t s0 files (Suc k))
           = totalSavedSize (state_before env src dst q t s0 files k)
       \<and> process_files env src dst q t s0 files =
           for_entries (compress_file env src dst q t)
             (state_before env src dst q t s0 files (Suc k))
             (enumerate (Suc k) (drop (Suc k) files))
       \<and> attempted (trace (process_files env src dst q t s0 files))
           = attempted (trace s0) @ files
       \<and> ((fst (compressImage env w inp out q t) = None) =
            (\<not> (\<exists>n enc w2 m. os_stat_size env w inp = Inr n
                   \<and> switch_targetExt env q t = Inr enc
                   \<and> sharp_toFile env w enc q inp out = (None, w2)
                   \<and> os_stat_size env w2 out = Inr m)))"
proof (intro conjI)
  let ?sk = "state_before env src dst q t s0 files k"
  have "compressImage env (world ?sk) (path_join env src (files ! k))
      (outputPath env dst (files ! k) t) q t = (None, w', evs)"
    using assms(2) by (simp add: compress_file_def)
  from compressImage_None [OF this]
  show "\<exists>pre e. evs = pre @ [ErrorCompressing (path_join env src (files ! k)) e]"
    by (metis append_Cons append_Nil)
  have step: "state_before env src dst q t s0 files (Suc k) =
      ?sk\<lparr>world := w',
          trace := trace ?sk @ [SpinnerText (files ! k)] @ evs @ [ProgressUpdate (Suc k)],
          bar_value := Suc k\<rparr>"
    unfolding state_before_Suc [OF assms(1)]
    by (rule iteration_None [of "compress_file env src dst q t (files ! k)" ?sk, OF assms(2)])
  then show "state_before env src dst q t s0 files (Suc k) =
      ?sk\<lparr>world := w',
          trace := trace ?sk @ [SpinnerText (files ! k)] @ evs @ [ProgressUpdate (Suc k)],
          bar_value := Suc k\<rparr>" .
  show "totalOriginalSize (state_before env src dst q t s0 files (Suc k))
      = totalOriginalSize ?sk"
    by (simp add: step)
  show "totalSavedSize (state_before env src dst q t s0 files (Suc k)) = totalSavedSize ?sk"
    by (simp add: step)
  show "process_files env src dst q t s0 files =
      for_entries (compress_file env src dst q t)
        (state_before env src dst q t s0 files (Suc k))
        (enumerate (Suc k) (drop (Suc k) files))"
    by (rule loop_resumes [OF assms(1)])
  show "attempted (trace (process_files env src dst q t s0 files)) = attempted (trace s0) @ files"
    by (simp add: process_files_def attempted_for_entries compress_file_quiet)
  show "(fst (compressImage env w inp out q t) = None) =
      (\<not> (\<exists>n enc w2 m. os_stat_size env w inp = Inr n
             \<and> switch_targetExt env q t = Inr enc
             \<and> sharp_toFile env w enc q inp out = (None, w2)
             \<and> os_stat_size env w2 out = Inr m))"
    using compressImage_succeeds_iff [of env w inp out q t] by auto
qed

theorem failure_is_logged_and_skipped_witness:
  "0 < length [''album.png'', ''.jpg'']
   \<and> compress_file example_env ''mixed'' ''out'' 60 ''webp'' ([''album.png'', ''.jpg''] ! 0)
       (world (state_before example_env ''mixed'' ''out'' 60 ''webp''
                 (initial_state example_world ''out'' 2) [''album.png'', ''.jpg''] 0))
       = (None, example_world,
          [ToFile Webp 60 ''mixed/album.png'' ''out/album.webp'',
           ErrorCompressing ''mixed/album.png'' (SharpError ''unsupported image format'')])
   \<and> (\<exists>pre e.
         [ToFile Webp 60 ''mixed/album.png'' ''out/album.webp'',
          ErrorCompressing ''mixed/album.png'' (SharpError ''unsupported image format'')]
         = pre @ [ErrorCompressing
                    (path_join example_env ''mixed'' ([''album.png'', ''.jpg''] ! 0)) e])
   \<and> attempted (trace (process_files example_env ''mixed'' ''out'' 60 ''webp''
                          (initial_state example_world ''out'' 2) [''album.png'', ''.jpg'']))
       = attempted (trace (initial_state example_world ''out'' 2)) @ [''album.png'', ''.jpg'']"
proof -
  have k: "0 < length [''album.png'', ''.jpg'']" by simp
  have c: "compress_file example_env ''mixed'' ''out'' 60 ''webp'' ([''album.png'', ''.jpg''] ! 0)
       (world (state_before example_env ''mixed'' ''out'' 60 ''webp''
                 (initial_state example_world ''out'' 2) [''album.png'', ''.jpg''] 0))
       = (None, example_world,
          [ToFile Webp 60 ''mixed/album.png'' ''out/album.webp'',
           ErrorCompressing ''mixed/album.png'' (SharpError ''unsupported image format'')])"
    by (simp add: state_before_def process_files_def initial_state_def example_compress_mixed)
  note inst = failure_is_logged_and_skipped [OF k c]
  show ?thesis
    by (intro conjI k c inst [THEN conjunct1]
        inst [THEN conjunct2, THEN conjunct2, THEN conjunct2, THEN conjunct2, THEN conjunct2,
          THEN conjunct1])
qed

section \<open>No qualifying file\<close>

text \<open>
  Claim C5. When the listing of the source directory holds no qualifying image name,
  a run prints the line that no image file was found and does nothing else, in both
  variants: the trace holds no \<open>EnsureDir\<close> and no summary line, and the world is the
  one the run started in, so the export directory is not created.
\<close>

theorem no_qualifying_files:
  assumes "os_readdir env w sourceDir = Inr ents"
    and "imageFiles (map d_name ents) = []"
  shows "compressImagesInDirectory env w sourceDir exportDir quality targetExt
           = (w, [LogNoImageFiles])
       \<and> compressImagesInDirectory_jpeg env w sourceDir exportDir quality
           = (w, [LogNoImageFiles])"
  using assms
  by (simp add: compressImagesInDirectory_def compressImagesInDirectory_jpeg_def fs_readdir_def)

theorem no_qualifying_files_witness:
  "os_readdir example_env example_world ''docs''
     = Inr [\<lparr>d_name = ''readme.md'', d_kind = File\<rparr>, \<lparr>d_name = ''sub'', d_kind = Directory\<rparr>]
   \<and> imageFiles (map d_name
        [\<lparr>d_name = ''readme.md'', d_kind = File\<rparr>, \<lparr>d_name = ''sub'', d_kind = Directory\<rparr>]) = []
   \<and> (compressImagesInDirectory example_env example_world ''docs'' ''out'' 60 ''webp''
           = (example_world, [LogNoImageFiles])
       \<and> compressImagesInDirectory_jpeg example_env example_world ''docs'' ''out'' 60
           = (example_world, [LogNoImageFiles]))"
proof -
  have h1: "os_readdir example_env example_world ''docs''
     = Inr [\<lparr>d_name = ''readme.md'', d_kind = File\<rparr>, \<lparr>d_name = ''sub'', d_kind = Directory\<rparr>]"
    by (simp add: example_env_fields example_listing_def)
  have h2: "imageFiles (map d_name
        [\<lparr>d_name = ''readme.md'', d_kind = File\<rparr>, \<lparr>d_name = ''sub'', d_kind = Directory\<rparr>]) = []"
    by (simp add: example_imageFiles)
  show ?thesis
    by (intro conjI h1 h2 no_qualifying_files [OF h1 h2, THEN conjunct1]
        no_qualifying_files [OF h1 h2, THEN conjunct2])
qed

section \<open>The totals of the summary\<close>

text \<open>
  Claim C6. In a run that reaches the loop, the summary printed last gives as total
  images the number of discovered files, which is also the number of awaited
  compressions, and as total original size and total saved size the sums of
  \<open>originalSize\<close> and of \<open>savedSize\<close> over the results that were returned, the failed
  compressions adding nothing.
\<close>

theorem summary_totals:
  assumes "os_readdir env w src = Inr ents" and "imageFiles (map d_name ents) = files"
    and "files \<noteq> []" and "os_ensureDir env w dst = (None, w1)"
    and "rs = results_of (compress_file env src dst q t) w1 files"
  shows "length rs = length files
       \<and> (\<exists>pre. snd (compressImagesInDirectory env w src dst q t) =
             pre @ [LogSummaryHeader, LogTotalImages (length files),
                    LogTotalOriginalSize (sum_list (map originalSize (successful rs))),
                    LogTotalSavedSize (sum_list (map savedSize (successful rs)))
                      (totalSpaceSavedPercentage
                         (sum_list (map savedSize (successful rs)))
                         (sum_list (map originalSize (successful rs)))),
                    LogTimeTaken])"
proof
  show "length rs = length files"
    by (simp add: assms(5) length_results_of)
  show "\<exists>pre. snd (compressImagesInDirectory env w src dst q t) =
             pre @ [LogSummaryHeader, LogTotalImages (length files),
                    LogTotalOriginalSize (sum_list (map originalSize (successful rs))),
                    LogTotalSavedSize (sum_list (map savedSize (successful rs)))
                      (totalSpaceSavedPercentage
                         (sum_list (map savedSize (successful rs)))
                         (sum_list (map originalSize (successful rs)))),
                    LogTimeTaken]"
    unfolding run_reaches_loop(1) [OF assms(1-4)] process_files_def finish_for_entries assms(5)
    by (rule exI) (rule refl)
qed

theorem summary_totals_witness:
  "os_readdir example_env example_world ''mixed''
     = Inr [\<lparr>d_name = ''album.png'', d_kind = Directory\<rparr>, \<lparr>d_name = ''.jpg'', d_kind = File\<rparr>]
   \<and> imageFiles (map d_name
        [\<lparr>d_name = ''album.png'', d_kind = Directory\<rparr>, \<lparr>d_name = ''.jpg'', d_kind = File\<rparr>])
       = [''album.png'', ''.jpg'']
   \<and> [''album.png'', ''.jpg''] \<noteq> []
   \<and> os_ensureDir example_env example_world ''out'' = (None, example_world)
   \<and> [None, Some \<lparr>originalSize = 1 / 2, compressedSize = 1 / 4, savedSize = 1 / 4\<rparr>] =
       results_of (compress_file example_env ''mixed'' ''out'' 60 ''webp'') example_world
         [''album.png'', ''.jpg'']
   \<and> (\<exists>pre. snd (compressImagesInDirectory example_env example_world ''mixed'' ''out'' 60 ''webp'') =
          pre @ [LogSummaryHeader, LogTotalImages 2, LogTotalOriginalSize (1 / 2),
                 LogTotalSavedSize (1 / 4) (Finite 50), LogTimeTaken])"
proof -
  have files: "[''album.png'', ''.jpg''] \<noteq> []" by simp
  have "\<exists>pre. snd (compressImagesInDirectory example_env example_world ''mixed'' ''out'' 60 ''webp'') =
          pre @ [LogSummaryHeader, LogTotalImages 2, LogTotalOriginalSize (1 / 2),
                 LogTotalSavedSize (1 / 4) (Finite 50), LogTimeTaken]"
    using summary_totals [OF example_hyps(1) example_mixed_files files example_hyps(4)
        example_results_mixed, THEN conjunct2]
    by (simp add: percentage_cases numeral_2_eq_2)
  then show ?thesis
    by (intro conjI example_hyps(1) example_mixed_files files example_hyps(4)
        example_results_mixed)
qed

section \<open>Discovery\<close>

text \<open>
  Claim C7, as stated, fails: the filter looks at entry names only, so a subdirectory
  whose name ends in an image extension is retained. Here the listing holds the
  directory \<^verbatim>\<open>album.png\<close>, which discovery keeps and the run then hands to the encoder.
\<close>

theorem discovery_keeps_directory:
  "os_readdir example_env example_world ''mixed''
     = Inr [\<lparr>d_name = ''album.png'', d_kind = Directory\<rparr>, \<lparr>d_name = ''.jpg'', d_kind = File\<rparr>]
   \<and> imageFiles (map d_name
        [\<lparr>d_name = ''album.png'', d_kind = Directory\<rparr>, \<lparr>d_name = ''.jpg'', d_kind = File\<rparr>])
       = [''album.png'', ''.jpg'']
   \<and> encoder_runs
        (snd (compressImagesInDirectory example_env example_world ''mixed'' ''out'' 60 ''webp''))
       = [ToFile Webp 60 ''mixed/album.png'' ''out/album.webp'',
          ToFile Webp 60 ''mixed/.jpg'' ''out/.jpg.webp'']"
proof -
  have "encoder_runs
        (snd (compressImagesInDirectory example_env example_world ''mixed'' ''out'' 60 ''webp''))
       = [ToFile Webp 60 ''mixed/album.png'' ''out/album.webp'',
          ToFile Webp 60 ''mixed/.jpg'' ''out/.jpg.webp'']"
    by (simp add: example_run_mixed encoder_runs_def)
  then show ?thesis
    by (intro conjI example_hyps(1) example_mixed_files)
qed

text \<open>
  Claim C7, amended. Discovery reads the names of the listing and retains, in listing
  order, exactly the entries whose name is \<open>stem.ext\<close> with \<open>ext\<close> one of \<^verbatim>\<open>jpg\<close>,
  \<^verbatim>\<open>jpeg\<close>, \<^verbatim>\<open>png\<close>, \<^verbatim>\<open>webp\<close> in any case, whether the entry is a file or a directory:
  an entry with another name is excluded, and a subdirectory is excluded only when its
  name does not match. In both variants the files a run then processes are the retained
  names, in that order.
\<close>

theorem discovery_by_name:
  assumes "os_readdir env w src = Inr ents"
  shows "fs_readdir env w src = Inr (map d_name ents)
       \<and> imageFiles (map d_name ents) = map d_name (filter (\<lambda>d. is_image_name (d_name d)) ents)
       \<and> (\<forall>f. is_image_name f =
              (\<exists>stem ext. f = stem @ ''.'' @ ext
                 \<and> toLowerCase ext \<in> {''jpg'', ''jpeg'', ''png'', ''webp''}))
       \<and> (imageFiles (map d_name ents) \<noteq> [] \<and> os_ensureDir env w dst = (None, w1)
            \<longrightarrow> attempted (snd (compressImagesInDirectory env w src dst q t))
                  = imageFiles (map d_name ents)
              \<and> attempted (snd (compressImagesInDirectory_jpeg env w src dst q))
                  = imageFiles (map d_name ents))"
proof (intro conjI allI impI)
  show "fs_readdir env w src = Inr (map d_name ents)"
    using assms by (simp add: fs_readdir_def)
  show "imageFiles (map d_name ents) = map d_name (filter (\<lambda>d. is_image_name (d_name d)) ents)"
    by (simp add: imageFiles_def filter_map comp_def)
  show "is_image_name f =
      (\<exists>stem ext. f = stem @ ''.'' @ ext \<and> toLowerCase ext \<in> {''jpg'', ''jpeg'', ''png'', ''webp''})"
    for f
    using is_image_name_iff [of f] by (simp add: image_extensions_def)
next
  assume h: "imageFiles (map d_name ents) \<noteq> [] \<and> os_ensureDir env w dst = (None, w1)"
  then show "attempted (snd (compressImagesInDirectory env w src dst q t))
      = imageFiles (map d_name ents)"
    using attempted_run(1) [OF assms] by blast
  from h show "attempted (snd (compressImagesInDirectory_jpeg env w src dst q))
      = imageFiles (map d_name ents)"
    using attempted_run(2) [OF assms] by blast
qed

theorem discovery_by_name_witness:
  "os_readdir example_env example_world ''photos''
     = Inr [\<lparr>d_name = ''a.jpg'', d_kind = File\<rparr>, \<lparr>d_name = ''notes.txt'', d_kind = File\<rparr>,
            \<lparr>d_name = ''b.PNG'', d_kind = File\<rparr>]
   \<and> fs_readdir example_env example_world ''photos''
       = Inr (map d_name
           [\<lparr>d_name = ''a.jpg'', d_kind = File\<rparr>, \<lparr>d_name = ''notes.txt'', d_kind = File\<rparr>,
            \<lparr>d_name = ''b.PNG'', d_kind = File\<rparr>])
   \<and> imageFiles (map d_name
        [\<lparr>d_name = ''a.jpg'', d_kind = File\<rparr>, \<lparr>d_name = ''notes.txt'', d_kind = File\<rparr>,
         \<lparr>d_name = ''b.PNG'', d_kind = File\<rparr>]) = [''a.jpg'', ''b.PNG'']"
  by (intro conjI example_hyps(2) example_photos_files
      discovery_by_name [OF example_hyps(2), THEN conjunct1])

section \<open>The sizes of a result\<close>

text \<open>
  Claim C8. A result returned by either variant of \<open>compressImage\<close> has its saved size
  equal to the original size minus the compressed size, where the original size is the
  byte count of the input path before the encoder ran and the compressed size is the
  byte count of the output path in the world the encoder left, both divided by
  \<open>1024 * 1024\<close>; the saved size is negative when the output is the bigger file.
\<close>

theorem saved_is_original_minus_compressed:
  assumes "compressImage env w inp out q t = (Some r, w', evs)
         \<or> compressImage_jpeg env w inp out q = (Some r, w', evs)"
  shows "savedSize r = originalSize r - compressedSize r
       \<and> (\<exists>n m enc. os_stat_size env w inp = Inr n
             \<and> sharp_toFile env w enc q inp out = (None, w')
             \<and> os_stat_size env w' out = Inr m
             \<and> originalSize r = of_nat n / (1024 * 1024)
             \<and> compressedSize r = of_nat m / (1024 * 1024)
             \<and> (n < m \<longrightarrow> savedSize r < 0))"
proof -
  from assms obtain t' where "compressImage env w inp out q t' = (Some r, w', evs)"
    by (auto simp: compressImage_jpeg_eq)
  from compressImage_Some [OF this] obtain n m enc where
    "os_stat_size env w inp = Inr n" "sharp_toFile env w enc q inp out = (None, w')"
    "os_stat_size env w' out = Inr m"
    and r: "r = \<lparr>originalSize = of_nat n / (1024 * 1024),
              compressedSize = of_nat m / (1024 * 1024),
              savedSize = of_nat n / (1024 * 1024) - of_nat m / (1024 * 1024)\<rparr>"
    by blast
  moreover have "n < m \<longrightarrow> savedSize r < 0"
    by (simp add: r divide_strict_right_mono)
  ultimately show ?thesis
    by (auto simp: r)
qed

theorem saved_is_original_minus_compressed_witness:
  "(compressImage example_env example_world ''photos/a.jpg'' ''out/a.png'' 60 ''png'' =
      (Some \<lparr>originalSize = 2, compressedSize = 4, savedSize = - 2\<rparr>,
       (''out/a.png'', 4194304) # example_world,
       [ToFile Png 60 ''photos/a.jpg'' ''out/a.png''])
    \<or> compressImage_jpeg example_env example_world ''photos/a.jpg'' ''out/a.png'' 60 =
      (Some \<lparr>originalSize = 2, compressedSize = 4, savedSize = - 2\<rparr>,
       (''out/a.png'', 4194304) # example_world,
       [ToFile Png 60 ''photos/a.jpg'' ''out/a.png'']))
   \<and> savedSize \<lparr>originalSize = 2, compressedSize = 4, savedSize = - 2\<rparr> < 0
   \<and> savedSize \<lparr>originalSize = 2, compressedSize = 4, savedSize = - 2\<rparr>
       = originalSize \<lparr>originalSize = 2, compressedSize = 4, savedSize = - 2\<rparr>
         - compressedSize \<lparr>originalSize = 2, compressedSize = 4, savedSize = - 2\<rparr>"
proof -
  have h: "compressImage example_env example_world ''photos/a.jpg'' ''out/a.png'' 60 ''png'' =
      (Some \<lparr>originalSize = 2, compressedSize = 4, savedSize = - 2\<rparr>,
       (''out/a.png'', 4194304) # example_world,
       [ToFile Png 60 ''photos/a.jpg'' ''out/a.png''])
    \<or> compressImage_jpeg example_env example_world ''photos/a.jpg'' ''out/a.png'' 60 =
      (Some \<lparr>originalSize = 2, compressedSize = 4, savedSize = - 2\<rparr>,
       (''out/a.png'', 4194304) # example_world,
       [ToFile Png 60 ''photos/a.jpg'' ''out/a.png''])"
    by (rule disjI1) (rule example_a_png)
  have neg: "savedSize \<lparr>originalSize = 2, compressedSize = 4, savedSize = - 2\<rparr> < 0"
    by simp
  show ?thesis
    by (intro conjI h neg saved_is_original_minus_compressed [OF h, THEN conjunct1])
qed

section \<open>The progress bar\<close>

text \<open>
  Claim C9. In a run that reaches the loop, each turn appends the events of its file and
  then, last, one progress update with the value \<open>index + 1\<close>, whether the compression
  returned a result or not. So the updates of the whole run are \<open>1, 2, \<dots>, n\<close> for the
  \<open>n\<close> discovered files, and the value of the bar after the loop is \<open>n\<close>. This holds in
  both variants.
\<close>

theorem progress_once_per_file:
  assumes "os_readdir env w src = Inr ents" and "imageFiles (map d_name ents) = files"
    and "files \<noteq> []" and "os_ensureDir env w dst = (None, w1)"
  shows "progress_updates (snd (compressImagesInDirectory env w src dst q t))
           = [1 ..< Suc (length files)]
       \<and> progress_updates (snd (compressImagesInDirectory_jpeg env w src dst q))
           = [1 ..< Suc (length files)]
       \<and> (\<forall>c \<in> {compress_file env src dst q t, compress_file_jpeg env src dst q}.
            bar_value (for_entries c (initial_state w1 dst (length files)) (enumerate 0 files))
              = length files
            \<and> (\<forall>k < length files. \<exists>evs.
                 trace (for_entries c (initial_state w1 dst (length files))
                          (enumerate 0 (take (Suc k) files)))
                   = trace (for_entries c (initial_state w1 dst (length files))
                              (enumerate 0 (take k files)))
                       @ SpinnerText (files ! k) # evs @ [ProgressUpdate (Suc k)]
                 \<and> progress_updates evs = []))"
proof (intro conjI ballI allI impI)
  show "progress_updates (snd (compressImagesInDirectory env w src dst q t))
           = [1 ..< Suc (length files)]"
    unfolding run_reaches_loop(1) [OF assms] progress_updates_finish process_files_def
    by (simp add: progress_updates_for_entries compress_file_quiet
        progress_updates_initial_state)
  show "progress_updates (snd (compressImagesInDirectory_jpeg env w src dst q))
           = [1 ..< Suc (length files)]"
    unfolding run_reaches_loop(2) [OF assms] progress_updates_finish process_files_jpeg_def
    by (simp add: progress_updates_for_entries compress_file_jpeg_quiet
        progress_updates_initial_state)
next
  fix c :: "string \<Rightarrow> 'a \<Rightarrow> CompressionResult option \<times> 'a \<times> event list"
  assume "c \<in> {compress_file env src dst q t, compress_file_jpeg env src dst q}"
  show "bar_value (for_entries c (initial_state w1 dst (length files)) (enumerate 0 files))
      = length files"
    using bar_value_for_entries [OF assms(3), of c _ 0] by simp
next
  fix c :: "string \<Rightarrow> 'a \<Rightarrow> CompressionResult option \<times> 'a \<times> event list" and k
  assume c: "c \<in> {compress_file env src dst q t, compress_file_jpeg env src dst q}"
    and k: "k < length files"
  from c have quiet: "\<And>w. progress_updates (snd (snd (c (files ! k) w))) = []"
    by (auto simp: compress_file_quiet compress_file_jpeg_quiet)
  from turn_of_file [of k files c, OF k quiet]
  show "\<exists>evs. trace (for_entries c (initial_state w1 dst (length files))
                          (enumerate 0 (take (Suc k) files)))
                   = trace (for_entries c (initial_state w1 dst (length files))
                              (enumerate 0 (take k files)))
                       @ SpinnerText (files ! k) # evs @ [ProgressUpdate (Suc k)]
                 \<and> progress_updates evs = []" .
qed

theorem progress_once_per_file_witness:
  "os_readdir example_env example_world ''mixed''
     = Inr [\<lparr>d_name = ''album.png'', d_kind = Directory\<rparr>, \<lparr>d_name = ''.jpg'', d_kind = File\<rparr>]
   \<and> imageFiles (map d_name
        [\<lparr>d_name = ''album.png'', d_kind = Directory\<rparr>, \<lparr>d_name = ''.jpg'', d_kind = File\<rparr>])
       = [''album.png'', ''.jpg'']
   \<and> [''album.png'', ''.jpg''] \<noteq> []
   \<and> os_ensureDir example_env example_world ''out'' = (None, example_world)
   \<and> progress_updates
         (snd (compressImagesInDirectory example_env example_world ''mixed'' ''out'' 60 ''webp''))
       = [1 ..< Suc (length [''album.png'', ''.jpg''])]"
proof -
  have files: "[''album.png'', ''.jpg''] \<noteq> []" by simp
  show ?thesis
    by (intro conjI example_hyps(1) example_mixed_files files example_hyps(4)
        progress_once_per_file [OF example_hyps(1) example_mixed_files files example_hyps(4),
          THEN conjunct1])
qed

section \<open>When the summary is printed\<close>

text \<open>
  Claim C10, as stated, fails: when the export directory cannot be ensured, a run that
  discovered image files ends in the outer \<^verbatim>\<open>catch\<close> and prints no summary. Here two image
  files are discovered and the export directory is \<^verbatim>\<open>/readonly/out\<close>.
\<close>

theorem summary_suppressed_by_ensureDir_error:
  "imageFiles (map d_name
      [\<lparr>d_name = ''a.jpg'', d_kind = File\<rparr>, \<lparr>d_name = ''notes.txt'', d_kind = File\<rparr>,
       \<lparr>d_name = ''b.PNG'', d_kind = File\<rparr>]) = [''a.jpg'', ''b.PNG'']
   \<and> os_readdir example_env example_world ''photos''
       = Inr [\<lparr>d_name = ''a.jpg'', d_kind = File\<rparr>, \<lparr>d_name = ''notes.txt'', d_kind = File\<rparr>,
              \<lparr>d_name = ''b.PNG'', d_kind = File\<rparr>]
   \<and> compressImagesInDirectory example_env example_world ''photos'' ''/readonly/out'' 60 ''webp''
       = (example_world,
          [EnsureDir ''/readonly/out'', ErrorProcessingDirectory (SystemError ''EACCES'')])"
  by (intro conjI example_photos_files example_hyps(2) example_run_readonly)

text \<open>
  Claim C10, amended. The summary is printed exactly when the source directory can be
  listed, at least one image file is discovered and the export directory can be ensured.
  It is then printed whatever the compressions return, with the number of discovered
  files as total images and the sums over the returned results as totals, which are both
  zero when every compression failed.
\<close>

theorem summary_printed_iff:
  "(LogSummaryHeader \<in> set (snd (compressImagesInDirectory env w src dst q t)))
     = (\<exists>ents w1. os_readdir env w src = Inr ents \<and> imageFiles (map d_name ents) \<noteq> []
          \<and> os_ensureDir env w dst = (None, w1))
   \<and> (\<forall>ents w1. os_readdir env w src = Inr ents \<and> imageFiles (map d_name ents) \<noteq> []
          \<and> os_ensureDir env w dst = (None, w1)
        \<longrightarrow> (\<exists>pre. snd (compressImagesInDirectory env w src dst q t) =
               pre @ [LogSummaryHeader, LogTotalImages (length (imageFiles (map d_name ents))),
                 LogTotalOriginalSize (sum_list (map originalSize (successful
                   (results_of (compress_file env src dst q t) w1 (imageFiles (map d_name ents)))))),
                 LogTotalSavedSize (sum_list (map savedSize (successful
                   (results_of (compress_file env src dst q t) w1 (imageFiles (map d_name ents))))))
                   (totalSpaceSavedPercentage
                      (sum_list (map savedSize (successful
                        (results_of (compress_file env src dst q t) w1
                           (imageFiles (map d_name ents))))))
                      (sum_list (map originalSize (successful
                        (results_of (compress_file env src dst q t) w1
                           (imageFiles (map d_name ents))))))),
                 LogTimeTaken]))"
proof (intro conjI allI impI)
  show "(LogSummaryHeader \<in> set (snd (compressImagesInDirectory env w src dst q t)))
     = (\<exists>ents w1. os_readdir env w src = Inr ents \<and> imageFiles (map d_name ents) \<noteq> []
          \<and> os_ensureDir env w dst = (None, w1))"
  proof (cases "os_readdir env w src")
    case (Inl e)
    then show ?thesis
      by (simp add: compressImagesInDirectory_def fs_readdir_def)
  next
    case (Inr ents)
    show ?thesis
    proof (cases "imageFiles (map d_name ents) = []")
      case True
      with Inr show ?thesis
        by (simp add: compressImagesInDirectory_def fs_readdir_def)
    next
      case False
      obtain r w1 where e: "os_ensureDir env w dst = (r, w1)" by (cases "os_ensureDir env w dst")
      show ?thesis
      proof (cases r)
        case None
        with Inr False e show ?thesis
          by (simp add: compressImagesInDirectory_def fs_readdir_def finish_def summary_def)
      next
        case (Some x)
        with Inr False e show ?thesis
          by (simp add: compressImagesInDirectory_def fs_readdir_def)
      qed
    qed
  qed
next
  fix ents w1
  assume h: "os_readdir env w src = Inr ents \<and> imageFiles (map d_name ents) \<noteq> []
          \<and> os_ensureDir env w dst = (None, w1)"
  then have 1: "os_readdir env w src = Inr ents" and 3: "imageFiles (map d_name ents) \<noteq> []"
    and 4: "os_ensureDir env w dst = (None, w1)" by simp_all
  show "\<exists>pre. snd (compressImagesInDirectory env w src dst q t) =
               pre @ [LogSummaryHeader, LogTotalImages (length (imageFiles (map d_name ents))),
                 LogTotalOriginalSize (sum_list (map originalSize (successful
                   (results_of (compress_file env src dst q t) w1 (imageFiles (map d_name ents)))))),
                 LogTotalSavedSize (sum_list (map savedSize (successful
                   (results_of (compress_file env src dst q t) w1 (imageFiles (map d_name ents))))))
                   (totalSpaceSavedPercentage
                      (sum_list (map savedSize (successful
                        (results_of (compress_file env src dst q t) w1
                           (imageFiles (map d_name ents))))))
                      (sum_list (map originalSize (successful
                        (results_of (compress_file env src dst q t) w1
                           (imageFiles (map d_name ents))))))),
                 LogTimeTaken]"
    unfolding run_reaches_loop(1) [OF 1 refl 3 4] process_files_def finish_for_entries
    by (rule exI) (rule refl)
qed

theorem summary_printed_iff_witness:
  "os_readdir example_env example_world ''broken'' = Inr [\<lparr>d_name = ''c.webp'', d_kind = File\<rparr>]
   \<and> imageFiles (map d_name [\<lparr>d_name = ''c.webp'', d_kind = File\<rparr>]) \<noteq> []
   \<and> os_ensureDir example_env example_world ''out'' = (None, example_world)
   \<and> successful (results_of (compress_file example_env ''broken'' ''out'' 60 ''webp'')
        example_world (imageFiles (map d_name [\<lparr>d_name = ''c.webp'', d_kind = File\<rparr>]))) = []
   \<and> LogSummaryHeader
       \<in> set (snd (compressImagesInDirectory example_env example_world ''broken'' ''out'' 60 ''webp''))"
proof -
  have files: "imageFiles (map d_name [\<lparr>d_name = ''c.webp'', d_kind = File\<rparr>]) \<noteq> []"
    by (simp add: example_imageFiles)
  have none: "successful (results_of (compress_file example_env ''broken'' ''out'' 60 ''webp'')
        example_world (imageFiles (map d_name [\<lparr>d_name = ''c.webp'', d_kind = File\<rparr>]))) = []"
    by (simp add: example_imageFiles example_compress_broken)
  have "\<exists>ents w1. os_readdir example_env example_world ''broken'' = Inr ents
      \<and> imageFiles (map d_name ents) \<noteq> []
      \<and> os_ensureDir example_env example_world ''out'' = (None, w1)"
    using example_hyps(3) files example_hyps(4) by blast
  then have "LogSummaryHeader
       \<in> set (snd (compressImagesInDirectory example_env example_world ''broken'' ''out'' 60 ''webp''))"
    using summary_printed_iff [of example_env example_world "''broken''" "''out''" 60 "''webp''",
        THEN conjunct1] by blast
  then show ?thesis
    by (intro conjI example_hyps(3) files example_hyps(4) none)
qed

end
